theory Spec2Isabelle
  imports Main "HOL-Library.Word"
begin

unbundle bit_operations_syntax

section \<open>Binary Merkle tree (swarm/storage/binarymerkle.go)\<close>

text \<open>
  Go's \<open>[]byte\<close> is a list of bytes, \<open>uint64\<close> and \<open>int\<close> are 64-bit words (an \<open>int\<close>
  is read through \<open>sint\<close> where its sign matters).  The package-level variable
  \<open>hashFunc\<close> is an argument \<open>H\<close> of every function that hashes: writing \<open>a\<close> and then
  \<open>b\<close> into a fresh hasher and taking \<open>Sum\<close> is \<open>H (a @ b)\<close>.  A \<open>*node\<close> is a
  \<open>node option\<close>, \<open>nil\<close> being \<open>None\<close>; the trees are built once and never mutated, so
  no aliasing is involved.
\<close>

type_synonym bytes = "8 word list"
type_synonym Hasher = "bytes \<Rightarrow> bytes"

datatype node = Node (label: bytes) (child0: "node option") (child1: "node option")

record BTree =
  count :: "64 word"
  root :: "node option"
  rootHash :: bytes

record Root =
  Count :: "64 word"
  Base :: bytes

datatype merkle_error =
    SecondWithoutFirst
  | ChildHeightMismatch
  | NodeHashMismatch
  | IncorrectCount
  | IncorrectHeight
  | IncorrectRootHash

datatype panic =
    BuildLeftOver
  | IndexTooLarge
  | IndexNegative
  | IndexNonZero
  | NilDereference
  | IndexOutOfRange

text \<open>\<open>binary.Write(h, binary.LittleEndian, count)\<close>: the eight bytes of \<open>count\<close>, lowest first.\<close>

definition le64 :: "64 word \<Rightarrow> bytes" where
  "le64 c = map (\<lambda>i. ucast (drop_bit (8 * i) c)) [0..<8]"

definition rootHash_of :: "Hasher \<Rightarrow> 64 word \<Rightarrow> bytes \<Rightarrow> bytes" where
  "rootHash_of H cnt data = H (data @ le64 cnt)"

definition makeHash :: "Hasher \<Rightarrow> node option \<Rightarrow> node option \<Rightarrow> bytes" where
  "makeHash H left right =
     H (case left of
          None \<Rightarrow> []
        | Some l \<Rightarrow> label l @ (case right of None \<Rightarrow> [] | Some r \<Rightarrow> label r))"

text \<open>
  \<open>GetHeight\<close>: the loop \<open>for count > (1 << uint(height)) { height++ }\<close>.  The shift is a
  64-bit shift, so \<open>1 << 64\<close> is \<open>0\<close>; for a count above \<open>2 ^ 63\<close> the loop condition stays
  true forever.  The loop is therefore a partial function: \<open>None\<close> is "does not return".
\<close>

partial_function (option) GetHeight_loop :: "64 word \<Rightarrow> nat \<Rightarrow> nat option" where
  "GetHeight_loop cnt height =
     (if cnt > push_bit height 1 then GetHeight_loop cnt (height + 1) else Some height)"

definition GetHeight :: "64 word \<Rightarrow> nat option" where
  "GetHeight cnt =
     (if cnt = 0 then Some 0
      else case GetHeight_loop cnt 0 of None \<Rightarrow> None | Some height \<Rightarrow> Some (height + 1))"

text \<open>
  \<open>node.validate\<close> returns the named results \<open>(count, height, err)\<close>; the heights are
  counted up from \<open>0\<close> and never negative.
\<close>

fun validate :: "Hasher \<Rightarrow> node option \<Rightarrow> 64 word \<times> nat \<times> merkle_error option" where
  "validate H None = (0, 0, None)"
| "validate H (Some (Node lbl None c1)) =
     (if c1 \<noteq> None then (0, 0, Some SecondWithoutFirst) else (1, 1, None))"
| "validate H (Some (Node lbl (Some a) c1)) =
     (case validate H (Some a) of
        (cnt, height, Some e) \<Rightarrow> (cnt, height, Some e)
      | (cnt, height, None) \<Rightarrow>
          (case c1 of
             None \<Rightarrow>
               (if makeHash H (Some a) None \<noteq> lbl then (0, 0, Some NodeHashMismatch)
                else (cnt, height + 1, None))
           | Some b \<Rightarrow>
               (case validate H (Some b) of
                  (count2, height2, Some e2) \<Rightarrow> (cnt + count2, height, Some e2)
                | (count2, height2, None) \<Rightarrow>
                    (if height2 \<noteq> height then (cnt + count2, height, Some ChildHeightMismatch)
                     else if makeHash H (Some a) (Some b) \<noteq> lbl
                       then (0, 0, Some NodeHashMismatch)
                     else (cnt + count2, height + 1, None)))))"

text \<open>
  \<open>BTree.Validate\<close>: \<open>Some (Inr None)\<close> is the \<open>nil\<close> error, \<open>Some (Inl p)\<close> a panic,
  \<open>None\<close> is "does not return".
\<close>

definition Validate :: "Hasher \<Rightarrow> BTree \<Rightarrow> (panic + merkle_error option) option" where
  "Validate H t =
     (case validate H (root t) of
        (cnt, height, Some e) \<Rightarrow> Some (Inr (Some e))
      | (cnt, height, None) \<Rightarrow>
          (if cnt \<noteq> count t then Some (Inr (Some IncorrectCount))
           else case GetHeight cnt of
                  None \<Rightarrow> None
                | Some gh \<Rightarrow>
                    (if height \<noteq> gh then Some (Inr (Some IncorrectHeight))
                     else case (if height > 0
                                then (case root t of None \<Rightarrow> None | Some n \<Rightarrow> Some (label n))
                                else Some []) of
                            None \<Rightarrow> Some (Inl NilDereference)
                          | Some rootLabel \<Rightarrow>
                              (if rootHash t \<noteq> rootHash_of H cnt rootLabel
                               then Some (Inr (Some IncorrectRootHash))
                               else Some (Inr None)))))"

text \<open>
  \<open>buildNode\<close>: the height comes from \<open>GetHeight\<close> and only decreases to \<open>1\<close> or \<open>0\<close>.
\<close>

fun buildNode :: "Hasher \<Rightarrow> bytes list \<Rightarrow> nat \<Rightarrow> node option \<times> bytes list" where
  "buildNode H data 0 = (None, data)"
| "buildNode H data (Suc 0) =
     (case data of [] \<Rightarrow> (None, data) | d # rest \<Rightarrow> (Some (Node d None None), rest))"
| "buildNode H data (Suc (Suc k)) =
     (if data = [] then (None, data)
      else case buildNode H data (Suc k) of
             (n0, data1) \<Rightarrow>
               (case buildNode H data1 (Suc k) of
                  (n1, data2) \<Rightarrow> (Some (Node (makeHash H n0 n1) n0 n1), data2)))"

text \<open>\<open>Build\<close>: \<open>None\<close> is "does not return", \<open>Some (Inl p)\<close> a panic.\<close>

definition Build :: "Hasher \<Rightarrow> bytes list \<Rightarrow> (panic + BTree) option" where
  "Build H data =
     (let cnt = (of_nat (length data) :: 64 word)
      in case GetHeight cnt of
           None \<Rightarrow> None
         | Some height \<Rightarrow>
             (case buildNode H data height of
                (nd, leftOverData) \<Rightarrow>
                  (if length leftOverData \<noteq> 0 then Some (Inl BuildLeftOver)
                   else case (if height > 0
                              then (case nd of None \<Rightarrow> None | Some n \<Rightarrow> Some (label n))
                              else Some []) of
                          None \<Rightarrow> Some (Inl NilDereference)
                        | Some rootLabel \<Rightarrow>
                            Some (Inr \<lparr>count = cnt, root = nd,
                                       rootHash = rootHash_of H cnt rootLabel\<rparr>))))"

text \<open>
  \<open>splitData\<close>, for a positive \<open>size\<close> (the division panics on \<open>0\<close>): the loop appends the
  \<open>count\<close> full blocks in order, the remainder follows when there is one.
\<close>

definition splitData :: "bytes \<Rightarrow> nat \<Rightarrow> bytes list" where
  "splitData data sz =
     (let cnt = length data div sz;
          blocks = map (\<lambda>i. take ((i + 1) * sz - i * sz) (drop (i * sz) data)) [0..<cnt]
      in if length data mod sz \<noteq> 0
         then blocks @ [drop (length blocks * sz) data]
         else blocks)"

text \<open>
  \<open>BuildBMT\<close> returns \<open>(bmt, root, count, errorcode)\<close>; the pointers are \<open>nil\<close> (\<open>None\<close>)
  with the error codes \<open>-1\<close> and \<open>-2\<close>.
\<close>

definition BuildBMT ::
  "Hasher \<Rightarrow> bytes \<Rightarrow> nat \<Rightarrow> (panic + (BTree option \<times> Root option \<times> nat \<times> int)) option" where
  "BuildBMT h data segmentsize =
     (let blocks = splitData data segmentsize;
          leafcount = length blocks
      in case Build h blocks of
           None \<Rightarrow> None
         | Some (Inl p) \<Rightarrow> Some (Inl p)
         | Some (Inr tree) \<Rightarrow>
             (case Validate h tree of
                None \<Rightarrow> None
              | Some (Inl p) \<Rightarrow> Some (Inl p)
              | Some (Inr (Some e)) \<Rightarrow> Some (Inr (None, None, 0, -1))
              | Some (Inr None) \<Rightarrow>
                  (if count tree \<noteq> of_nat leafcount then Some (Inr (None, None, 0, -2))
                   else Some (Inr (Some tree,
                                   Some \<lparr>Count = of_nat leafcount, Base = rootHash tree\<rparr>,
                                   leafcount, 0)))))"

text \<open>
  \<open>proveNode\<close>: \<open>index\<close> is an \<open>int\<close>, so \<open>>>\<close> is the arithmetic shift; a child index other
  than \<open>0\<close> or \<open>1\<close> is out of the range of \<open>children\<close>, and reading a field of a \<open>nil\<close>
  node panics.  With height \<open>0\<close> the shift amount \<open>uint(height-2)\<close> is at least \<open>2 ^ 63\<close>
  and the recursion goes down the left spine until it dereferences \<open>nil\<close>.
\<close>

fun proveNode :: "nat \<Rightarrow> node option \<Rightarrow> 64 word \<Rightarrow> panic + bytes list" where
  "proveNode 0 n index = Inl NilDereference"
| "proveNode (Suc 0) n index =
     (if index \<noteq> 0 then Inl IndexNonZero
      else case n of None \<Rightarrow> Inl NilDereference | Some nd \<Rightarrow> Inr [label nd])"
| "proveNode (Suc (Suc k)) n index =
     (let childIndex = signed_drop_bit k index;
          nextIndex = index AND NOT (push_bit k 1)
      in case n of
           None \<Rightarrow> Inl NilDereference
         | Some nd \<Rightarrow>
             (if childIndex \<noteq> 0 \<and> childIndex \<noteq> 1 then Inl IndexOutOfRange
              else case proveNode (Suc k) (if childIndex = 0 then child0 nd else child1 nd) nextIndex of
                     Inl p \<Rightarrow> Inl p
                   | Inr b \<Rightarrow>
                       (case (if childIndex = 0 then child1 nd else child0 nd) of
                          None \<Rightarrow> Inr b
                        | Some other \<Rightarrow> Inr (b @ [label other]))))"

definition InclusionProof :: "BTree \<Rightarrow> 64 word \<Rightarrow> (panic + bytes list) option" where
  "InclusionProof t index =
     (if index \<ge> count t then Some (Inl IndexTooLarge)
      else if sint index < 0 then Some (Inl IndexNegative)
      else case GetHeight (count t) of
             None \<Rightarrow> None
           | Some h \<Rightarrow> Some (proveNode h (root t) index))"

text \<open>
  \<open>checkNode\<close>.  With height \<open>0\<close> the shift amount \<open>uint(height-2)\<close> is at least \<open>2 ^ 63\<close>:
  \<open>childIndex\<close> is \<open>0\<close>, \<open>mask\<close> is all ones, \<open>nextCount\<close> becomes \<open>0\<close>, and the recursive call
  returns \<open>(nil, false)\<close> at one of its first two checks.
\<close>

function checkNode :: "Hasher \<Rightarrow> nat \<Rightarrow> bytes list \<Rightarrow> 64 word \<Rightarrow> 64 word \<Rightarrow> bytes \<times> bool" where
  "checkNode H 0 prf index cnt =
     (if length prf = 0 then ([], False)
      else if cnt \<le> index then ([], False)
      else (H ([] @ prf ! (length prf - 1)), False))"
| "checkNode H (Suc 0) prf index cnt =
     (if length prf = 0 then ([], False)
      else if cnt \<le> index then ([], False)
      else if index \<noteq> 0 \<or> length prf \<noteq> 1 then ([], False)
      else (prf ! 0, True))"
| "checkNode H (Suc (Suc k)) prf index cnt =
     (if length prf = 0 then ([], False)
      else if cnt \<le> index then ([], False)
      else
        let childIndex = drop_bit k index;
            mask = NOT (push_bit k 1);
            nextIndex = index AND mask;
            last = length prf - 1
        in if childIndex = 1 then
             (let nextCount = cnt AND mask;
                  (data, ok) = checkNode H (Suc k) (take last prf) nextIndex nextCount
              in (H (prf ! last @ data), ok))
           else
             (let nextCount = (if cnt > NOT mask then NOT mask else cnt)
              in if cnt = nextCount then
                   (let (data, ok) = checkNode H (Suc k) prf nextIndex nextCount
                    in (H data, ok))
                 else
                   (let (data, ok) = checkNode H (Suc k) (take last prf) nextIndex nextCount
                    in (H (data @ prf ! last), ok))))"
  by pat_completeness simp_all
termination
  by (relation "measure (\<lambda>(H, h, prf, i, c). h)") (simp_all (no_asm))

text \<open>\<open>Root.CheckProof\<close>; \<open>uint64(index)\<close> keeps the bits of the \<open>int\<close>.\<close>

definition CheckProof :: "Hasher \<Rightarrow> Root \<Rightarrow> bytes list \<Rightarrow> 64 word \<Rightarrow> bool option" where
  "CheckProof h r prf index =
     (case GetHeight (Count r) of
        None \<Rightarrow> None
      | Some t_height \<Rightarrow>
          (case checkNode h t_height prf index (Count r) of
             (rt, ok) \<Rightarrow> Some (ok \<and> Base r = rootHash_of h (Count r) rt)))"

text \<open>
  Two notions used in the proofs only.  \<open>shape H h ls n\<close>: the node \<open>n\<close> is a left-leaning
  tree of height \<open>h\<close> over the leaves \<open>ls\<close>, with every label as \<open>makeHash\<close> computes it.
  \<open>okc h m c\<close>: the count \<open>c\<close> that \<open>checkNode\<close> carries for a subtree of height \<open>h\<close> with \<open>m\<close>
  leaves is either exact, or the subtree is full and \<open>c\<close> is not below its size (the
  right-child count \<open>count & mask\<close> stays too large below a tree of \<open>2 ^ k\<close> leaves).
\<close>

fun shape :: "Hasher \<Rightarrow> nat \<Rightarrow> bytes list \<Rightarrow> node \<Rightarrow> bool" where
  "shape H 0 ls n = False"
| "shape H (Suc 0) ls n = (ls = [label n] \<and> child0 n = None \<and> child1 n = None)"
| "shape H (Suc (Suc k)) ls n =
     (case child0 n of
        None \<Rightarrow> False
      | Some a \<Rightarrow>
          (case child1 n of
             None \<Rightarrow> length ls \<le> 2 ^ k \<and> shape H (Suc k) ls a \<and> label n = H (label a)
           | Some b \<Rightarrow>
               2 ^ k < length ls \<and> shape H (Suc k) (take (2 ^ k) ls) a
               \<and> shape H (Suc k) (drop (2 ^ k) ls) b \<and> label n = H (label a @ label b)))"

definition okc :: "nat \<Rightarrow> nat \<Rightarrow> 64 word \<Rightarrow> bool" where
  "okc h m c = (unat c = m \<or> (m = 2 ^ (h - 1) \<and> 2 ^ (h - 1) \<le> unat c))"

section \<open>Program decoder and store (core/vm/program.go)\<close>

text \<open>
  An \<open>OpCode\<close> is a byte.  The opcode constants, the type \<open>instruction\<close>, the table
  \<open>_baseCheck\<close> and the instruction functions \<open>opAdd\<close>, \<open>opPush\<close>, ... are declared in files
  of the package that are not part of the sources at hand.  The opcode constants have
  the protocol's values; the table is an argument of the functions that read it; an
  instruction function is its name, as nothing here calls one.
\<close>

type_synonym OpCode = "8 word"

abbreviation STOP :: OpCode where "STOP \<equiv> 0x00"
abbreviation ADD :: OpCode where "ADD \<equiv> 0x01"
abbreviation MUL :: OpCode where "MUL \<equiv> 0x02"
abbreviation SUB :: OpCode where "SUB \<equiv> 0x03"
abbreviation DIV :: OpCode where "DIV \<equiv> 0x04"
abbreviation SDIV :: OpCode where "SDIV \<equiv> 0x05"
abbreviation MOD :: OpCode where "MOD \<equiv> 0x06"
abbreviation SMOD :: OpCode where "SMOD \<equiv> 0x07"
abbreviation ADDMOD :: OpCode where "ADDMOD \<equiv> 0x08"
abbreviation MULMOD :: OpCode where "MULMOD \<equiv> 0x09"
abbreviation EXP :: OpCode where "EXP \<equiv> 0x0a"
abbreviation SIGNEXTEND :: OpCode where "SIGNEXTEND \<equiv> 0x0b"
abbreviation LT :: OpCode where "LT \<equiv> 0x10"
abbreviation GT :: OpCode where "GT \<equiv> 0x11"
abbreviation SLT :: OpCode where "SLT \<equiv> 0x12"
abbreviation SGT :: OpCode where "SGT \<equiv> 0x13"
abbreviation EQ :: OpCode where "EQ \<equiv> 0x14"
abbreviation ISZERO :: OpCode where "ISZERO \<equiv> 0x15"
abbreviation AND_op :: OpCode where "AND_op \<equiv> 0x16"
abbreviation OR_op :: OpCode where "OR_op \<equiv> 0x17"
abbreviation XOR_op :: OpCode where "XOR_op \<equiv> 0x18"
abbreviation NOT_op :: OpCode where "NOT_op \<equiv> 0x19"
abbreviation BYTE :: OpCode where "BYTE \<equiv> 0x1a"
abbreviation SHA3 :: OpCode where "SHA3 \<equiv> 0x20"
abbreviation ADDRESS :: OpCode where "ADDRESS \<equiv> 0x30"
abbreviation BALANCE :: OpCode where "BALANCE \<equiv> 0x31"
abbreviation ORIGIN :: OpCode where "ORIGIN \<equiv> 0x32"
abbreviation CALLER :: OpCode where "CALLER \<equiv> 0x33"
abbreviation CALLVALUE :: OpCode where "CALLVALUE \<equiv> 0x34"
abbreviation CALLDATALOAD :: OpCode where "CALLDATALOAD \<equiv> 0x35"
abbreviation CALLDATASIZE :: OpCode where "CALLDATASIZE \<equiv> 0x36"
abbreviation CALLDATACOPY :: OpCode where "CALLDATACOPY \<equiv> 0x37"
abbreviation CODESIZE :: OpCode where "CODESIZE \<equiv> 0x38"
abbreviation CODECOPY :: OpCode where "CODECOPY \<equiv> 0x39"
abbreviation GASPRICE :: OpCode where "GASPRICE \<equiv> 0x3a"
abbreviation EXTCODESIZE :: OpCode where "EXTCODESIZE \<equiv> 0x3b"
abbreviation EXTCODECOPY :: OpCode where "EXTCODECOPY \<equiv> 0x3c"
abbreviation BLOCKHASH :: OpCode where "BLOCKHASH \<equiv> 0x40"
abbreviation COINBASE :: OpCode where "COINBASE \<equiv> 0x41"
abbreviation TIMESTAMP :: OpCode where "TIMESTAMP \<equiv> 0x42"
abbreviation NUMBER :: OpCode where "NUMBER \<equiv> 0x43"
abbreviation DIFFICULTY :: OpCode where "DIFFICULTY \<equiv> 0x44"
abbreviation GASLIMIT :: OpCode where "GASLIMIT \<equiv> 0x45"
abbreviation POP :: OpCode where "POP \<equiv> 0x50"
abbreviation MLOAD :: OpCode where "MLOAD \<equiv> 0x51"
abbreviation MSTORE :: OpCode where "MSTORE \<equiv> 0x52"
abbreviation MSTORE8 :: OpCode where "MSTORE8 \<equiv> 0x53"
abbreviation SLOAD :: OpCode where "SLOAD \<equiv> 0x54"
abbreviation SSTORE :: OpCode where "SSTORE \<equiv> 0x55"
abbreviation JUMP :: OpCode where "JUMP \<equiv> 0x56"
abbreviation JUMPI :: OpCode where "JUMPI \<equiv> 0x57"
abbreviation PC :: OpCode where "PC \<equiv> 0x58"
abbreviation MSIZE :: OpCode where "MSIZE \<equiv> 0x59"
abbreviation GAS :: OpCode where "GAS \<equiv> 0x5a"
abbreviation JUMPDEST :: OpCode where "JUMPDEST \<equiv> 0x5b"
abbreviation PUSH1 :: OpCode where "PUSH1 \<equiv> 0x60"
abbreviation PUSH32 :: OpCode where "PUSH32 \<equiv> 0x7f"
abbreviation DUP1 :: OpCode where "DUP1 \<equiv> 0x80"
abbreviation DUP16 :: OpCode where "DUP16 \<equiv> 0x8f"
abbreviation SWAP1 :: OpCode where "SWAP1 \<equiv> 0x90"
abbreviation SWAP16 :: OpCode where "SWAP16 \<equiv> 0x9f"
abbreviation LOG0 :: OpCode where "LOG0 \<equiv> 0xa0"
abbreviation LOG4 :: OpCode where "LOG4 \<equiv> 0xa4"
abbreviation CREATE :: OpCode where "CREATE \<equiv> 0xf0"
abbreviation CALL :: OpCode where "CALL \<equiv> 0xf1"
abbreviation CALLCODE :: OpCode where "CALLCODE \<equiv> 0xf2"
abbreviation RETURN :: OpCode where "RETURN \<equiv> 0xf3"
abbreviation DELEGATECALL :: OpCode where "DELEGATECALL \<equiv> 0xf4"
abbreviation SUICIDE :: OpCode where "SUICIDE \<equiv> 0xff"

type_synonym instrFn = string

datatype progStatus = progUnknown | progCompile | progReady | progError

text \<open>
  A \<open>*big.Int\<close> that holds a non-negative number is a natural number, \<open>nil\<close> is \<open>None\<close>.
  A program counter is a \<open>uint64\<close>; a Go slice has fewer than \<open>2 ^ 63\<close> elements, so the
  counter of the decoding loop, at most \<open>len(code) + 32\<close>, never wraps and is a natural
  number here, and so are the keys and values of \<open>mapping\<close> and \<open>destinations\<close>.
\<close>

record req =
  stackPop :: int
  req_gas :: "64 word"
  stackPush :: int

record instruction =
  instr_op :: OpCode
  instr_pc :: nat
  instr_fn :: "instrFn option"
  instr_data :: "nat option"
  instr_gas :: "64 word"
  spop :: int
  spush :: int
  returns :: bool

record Program =
  Id :: "256 word"
  status :: progStatus
  instructions :: "instruction list"
  mapping :: "nat \<rightharpoonup> nat"
  destinations :: "nat set"
  code :: bytes

text \<open>
  Modelled from the spec: \<open>getData\<close> and \<open>common.Bytes2Big\<close>, which are not among the
  sources.  The spec's decoding algorithm: "the immediate is the next \<open>n\<close> bytes of code,
  big-endian, zero-padded on right truncation", "trailing bytes are treated as zero".
  So \<open>getData\<close> is the slice of at most \<open>size\<close> bytes from \<open>start\<close>, followed by zero bytes
  up to \<open>size\<close>, and \<open>Bytes2Big\<close> reads bytes as a big-endian number.
\<close>

definition getData :: "bytes \<Rightarrow> nat \<Rightarrow> nat \<Rightarrow> bytes" where
  "getData bs start sz =
     (let s = min start (length bs);
          e = min (s + sz) (length bs);
          part = take (e - s) (drop s bs)
      in part @ replicate (sz - length part) 0)"

definition Bytes2Big :: "bytes \<Rightarrow> nat" where
  "Bytes2Big bs = foldl (\<lambda>acc b. acc * 256 + unat b) 0 bs"

text \<open>\<open>Program.addInstr\<close>; \<open>baseCheck\<close> is the table \<open>_baseCheck\<close>.\<close>

definition addInstr ::
  "(OpCode \<Rightarrow> req) \<Rightarrow> Program \<Rightarrow> OpCode \<Rightarrow> nat \<Rightarrow> instrFn option \<Rightarrow> nat option \<Rightarrow> Program" where
  "addInstr baseCheck p opc pcv fnv datav =
     (let baseOp = (if opc \<ge> PUSH1 \<and> opc \<le> PUSH32 then PUSH1 else opc);
          baseOp = (if opc \<ge> DUP1 \<and> opc \<le> DUP16 then DUP1 else baseOp);
          base = baseCheck baseOp;
          rets = (opc = RETURN \<or> opc = SUICIDE \<or> opc = STOP);
          instr = \<lparr>instr_op = opc, instr_pc = pcv, instr_fn = fnv, instr_data = datav,
                   instr_gas = req_gas base, spop = stackPop base, spush = stackPush base,
                   returns = rets\<rparr>;
          instrs = instructions p @ [instr]
      in p\<lparr>instructions := instrs, mapping := (mapping p)(pcv \<mapsto> length instrs - 1)\<rparr>)"

text \<open>
  The cases of the \<open>switch\<close> in \<open>CompileProgram\<close> that only call
  \<open>addInstr(op, pc, fn, nil)\<close>: the function of each opcode.  An opcode that is not listed,
  and has no case of its own below, takes the \<open>default\<close> branch with \<open>fn = nil\<close>.
\<close>

definition plainInstrs :: "(OpCode \<times> instrFn) list" where
  "plainInstrs =
     [(ADD, ''opAdd''), (SUB, ''opSub''), (MUL, ''opMul''), (DIV, ''opDiv''), (SDIV, ''opSdiv''), (MOD, ''opMod''),
      (SMOD, ''opSmod''), (EXP, ''opExp''), (SIGNEXTEND, ''opSignExtend''), (NOT_op, ''opNot''), (LT, ''opLt''),
      (GT, ''opGt''), (SLT, ''opSlt''), (SGT, ''opSgt''), (EQ, ''opEq''), (ISZERO, ''opIszero''), (AND_op, ''opAnd''),
      (OR_op, ''opOr''), (XOR_op, ''opXor''), (BYTE, ''opByte''), (ADDMOD, ''opAddmod''), (MULMOD, ''opMulmod''),
      (SHA3, ''opSha3''), (ADDRESS, ''opAddress''), (BALANCE, ''opBalance''), (ORIGIN, ''opOrigin''),
      (CALLER, ''opCaller''), (CALLVALUE, ''opCallValue''), (CALLDATALOAD, ''opCalldataLoad''),
      (CALLDATASIZE, ''opCalldataSize''), (CALLDATACOPY, ''opCalldataCopy''), (CODESIZE, ''opCodeSize''),
      (EXTCODESIZE, ''opExtCodeSize''), (CODECOPY, ''opCodeCopy''), (EXTCODECOPY, ''opExtCodeCopy''),
      (GASPRICE, ''opGasprice''), (BLOCKHASH, ''opBlockhash''), (COINBASE, ''opCoinbase''),
      (TIMESTAMP, ''opTimestamp''), (NUMBER, ''opNumber''), (DIFFICULTY, ''opDifficulty''),
      (GASLIMIT, ''opGasLimit''), (POP, ''opPop''), (MLOAD, ''opMload''), (MSTORE, ''opMstore''),
      (MSTORE8, ''opMstore8''), (SLOAD, ''opSload''), (SSTORE, ''opSstore''), (JUMP, ''opJump''),
      (JUMPI, ''opJumpi''), (MSIZE, ''opMsize''), (GAS, ''opGas''), (CREATE, ''opCreate''),
      (DELEGATECALL, ''opDelegateCall''), (CALL, ''opCall''), (CALLCODE, ''opCallCode''),
      (RETURN, ''opReturn''), (SUICIDE, ''opSuicide''), (STOP, ''opStop'')]"

text \<open>
  One round of the loop of \<open>CompileProgram\<close> at \<open>pc\<close>: the program after the case of
  \<open>code[pc]\<close>, and \<open>pushSize\<close>, by which the \<open>PUSH\<close> case advances \<open>pc\<close> before the loop's
  own \<open>pc++\<close>.
\<close>

definition pushSize :: "OpCode \<Rightarrow> nat" where
  "pushSize opc = (if opc \<ge> PUSH1 \<and> opc \<le> PUSH32 then unat (opc - PUSH1 + 1) else 0)"

definition compileInstr :: "(OpCode \<Rightarrow> req) \<Rightarrow> Program \<Rightarrow> nat \<Rightarrow> Program" where
  "compileInstr baseCheck program pcv =
     (let opc = code program ! pcv
      in if opc \<ge> PUSH1 \<and> opc \<le> PUSH32 then
           (let sz = unat (opc - PUSH1 + 1);
                bs = getData (code program) (pcv + 1) sz
            in addInstr baseCheck program opc pcv (Some ''opPush'') (Some (Bytes2Big bs)))
         else if opc \<ge> DUP1 \<and> opc \<le> DUP16 then
           addInstr baseCheck program opc pcv (Some ''opDup'') (Some (unat (opc - DUP1 + 1)))
         else if opc \<ge> SWAP1 \<and> opc \<le> SWAP16 then
           addInstr baseCheck program opc pcv (Some ''opSwap'') (Some (unat (opc - SWAP1 + 2)))
         else if opc \<ge> LOG0 \<and> opc \<le> LOG4 then
           addInstr baseCheck program opc pcv (Some ''opLog'') (Some (unat (opc - LOG0)))
         else if opc = JUMPDEST then
           (let program = addInstr baseCheck program opc pcv (Some ''opJumpdest'') None
            in program\<lparr>destinations := insert pcv (destinations program)\<rparr>)
         else if opc = PC then
           addInstr baseCheck program opc pcv (Some ''opPc'') (Some pcv)
         else addInstr baseCheck program opc pcv (map_of plainInstrs opc) None)"

function compileLoop :: "(OpCode \<Rightarrow> req) \<Rightarrow> Program \<Rightarrow> nat \<Rightarrow> Program" where
  "compileLoop baseCheck program pcv =
     (if pcv < length (code program)
      then compileLoop baseCheck (compileInstr baseCheck program pcv)
             (pcv + pushSize (code program ! pcv) + 1)
      else program)"
  by pat_completeness simp_all
termination
  by (relation "measure (\<lambda>(b, p, pcv). length (code p) - pcv)")
     (auto simp: compileInstr_def addInstr_def Let_def)

text \<open>
  \<open>CompileProgram\<close> works on the program in place.  The result here is the program
  after the call together with the values that the call stored into its \<open>status\<close>
  field, in order (the store at the start and the deferred store).
\<close>

definition CompileProgram :: "(OpCode \<Rightarrow> req) \<Rightarrow> Program \<Rightarrow> Program \<times> progStatus list" where
  "CompileProgram baseCheck program =
     (if status program = progCompile then (program, [])
      else let program = program\<lparr>status := progCompile\<rparr>;
               program = compileLoop baseCheck program 0
           in (program\<lparr>status := progReady\<rparr>, [progCompile, progReady]))"

text \<open>
  \<open>validDest\<close>; \<open>bigMaxUint64\<close>, declared elsewhere in the package, is the largest
  \<open>uint64\<close>.
\<close>

definition validDest :: "nat set \<Rightarrow> nat \<Rightarrow> bool" where
  "validDest dests dest = (if dest > 2 ^ 64 - 1 then False else dest mod 2 ^ 64 \<in> dests)"

text \<open>
  The program cache \<open>programs\<close> is an LRU cache of the library \<open>golang-lru\<close>: the entries
  from the most to the least recently used, and the capacity.  The values are pointers
  to programs; the programs live in a store from addresses to programs, since
  \<open>CompileProgram\<close> changes a program that the cache also points to.
\<close>

record vm_state =
  heap :: "nat \<rightharpoonup> Program"
  next_addr :: nat
  programs :: "(256 word \<times> nat) list"
  cache_size :: nat

definition lru_Add :: "(256 word \<times> nat) list \<Rightarrow> nat \<Rightarrow> 256 word \<Rightarrow> nat \<Rightarrow> (256 word \<times> nat) list" where
  "lru_Add entries cap k v =
     (if k \<in> fst ` set entries then (k, v) # filter (\<lambda>e. fst e \<noteq> k) entries
      else if length entries + 1 > cap then (k, v) # butlast entries
      else (k, v) # entries)"

definition lru_Get :: "(256 word \<times> nat) list \<Rightarrow> 256 word \<Rightarrow> nat option \<times> (256 word \<times> nat) list" where
  "lru_Get entries k =
     (case map_of entries k of
        None \<Rightarrow> (None, entries)
      | Some v \<Rightarrow> (Some v, (k, v) # filter (\<lambda>e. fst e \<noteq> k) entries))"

text \<open>\<open>NewProgram\<close>; \<open>keccak\<close> is \<open>crypto.Keccak256Hash\<close>.  The new program's address is returned.\<close>

definition NewProgram :: "(bytes \<Rightarrow> 256 word) \<Rightarrow> vm_state \<Rightarrow> bytes \<Rightarrow> nat \<times> vm_state" where
  "NewProgram keccak s bs =
     (let program = \<lparr>Id = keccak bs, status = progUnknown, instructions = [],
                     mapping = Map.empty, destinations = {}, code = bs\<rparr>;
          a = next_addr s
      in (a, s\<lparr>heap := (heap s)(a \<mapsto> program), next_addr := a + 1,
                programs := lru_Add (programs s) (cache_size s) (Id program) a\<rparr>))"

definition GetProgram :: "vm_state \<Rightarrow> 256 word \<Rightarrow> nat option \<times> vm_state" where
  "GetProgram s ident =
     (case lru_Get (programs s) ident of (r, entries) \<Rightarrow> (r, s\<lparr>programs := entries\<rparr>))"

definition GetProgramStatus :: "vm_state \<Rightarrow> 256 word \<Rightarrow> progStatus \<times> vm_state" where
  "GetProgramStatus s ident =
     (case GetProgram s ident of
        (Some a, s') \<Rightarrow> (case heap s' a of Some program \<Rightarrow> (status program, s')
                                          | None \<Rightarrow> (progUnknown, s'))
      | (None, s') \<Rightarrow> (progUnknown, s'))"

text \<open>
  A sequence of calls of the three functions.  \<open>run_call\<close> performs one call and gives
  the status transitions \<open>(address, old, new)\<close> that its stores made; a call of
  \<open>CompileProgram\<close> on an address that holds no program is a \<open>nil\<close> dereference and
  changes nothing.
\<close>

datatype call =
    CallNewProgram bytes
  | CallCompileProgram nat
  | CallGetProgramStatus "256 word"

fun transitions :: "nat \<Rightarrow> progStatus \<Rightarrow> progStatus list \<Rightarrow> (nat \<times> progStatus \<times> progStatus) list" where
  "transitions a old [] = []"
| "transitions a old (new # rest) = (a, old, new) # transitions a new rest"

fun run_call ::
  "(bytes \<Rightarrow> 256 word) \<Rightarrow> (OpCode \<Rightarrow> req) \<Rightarrow> vm_state \<Rightarrow> call
     \<Rightarrow> vm_state \<times> (nat \<times> progStatus \<times> progStatus) list" where
  "run_call keccak baseCheck s (CallNewProgram bs) = (snd (NewProgram keccak s bs), [])"
| "run_call keccak baseCheck s (CallCompileProgram a) =
     (case heap s a of
        None \<Rightarrow> (s, [])
      | Some program \<Rightarrow>
          (case CompileProgram baseCheck program of
             (program', stores) \<Rightarrow>
               (s\<lparr>heap := (heap s)(a \<mapsto> program')\<rparr>, transitions a (status program) stores)))"
| "run_call keccak baseCheck s (CallGetProgramStatus ident) = (snd (GetProgramStatus s ident), [])"

fun run_calls ::
  "(bytes \<Rightarrow> 256 word) \<Rightarrow> (OpCode \<Rightarrow> req) \<Rightarrow> vm_state \<Rightarrow> call list
     \<Rightarrow> vm_state \<times> (nat \<times> progStatus \<times> progStatus) list" where
  "run_calls keccak baseCheck s [] = (s, [])"
| "run_calls keccak baseCheck s (c # cs) =
     (case run_call keccak baseCheck s c of
        (s', ts) \<Rightarrow> (case run_calls keccak baseCheck s' cs of (s'', ts') \<Rightarrow> (s'', ts @ ts')))"

text \<open>The state after \<open>init\<close>: an empty cache of the default capacity.\<close>

definition init_state :: vm_state where
  "init_state = \<lparr>heap = Map.empty, next_addr = 0, programs = [], cache_size = 1024\<rparr>"

text \<open>
  Used in the proofs only: the program counters at which the loop, started at \<open>pcv\<close>,
  decodes an opcode.
\<close>

function decodedPcs :: "bytes \<Rightarrow> nat \<Rightarrow> nat list" where
  "decodedPcs bs pcv =
     (if pcv < length bs then pcv # decodedPcs bs (pcv + pushSize (bs ! pcv) + 1) else [])"
  by pat_completeness simp_all
termination
  by (relation "measure (\<lambda>(bs, pcv). length bs - pcv)") auto

section \<open>Gas and memory meter (calculateGasAndSize)\<close>

text \<open>
  A stack item is a \<open>*big.Int\<close> holding an unsigned 256-bit value, a 256-bit word here:
  \<open>BitLen() > 64\<close> is \<open>2 ^ 64 \<le> unat x\<close>, \<open>Uint64()\<close> is \<open>ucast\<close> (the low 64 bits),
  \<open>common.BigToHash\<close> is the identity and \<open>common.BigToAddress\<close> keeps the low 160 bits.
  The stack is its slice \<open>data\<close>, the top of the stack last.  The memory is its byte
  store.  Gas and memory sizes are \<open>uint64\<close>, 64-bit words whose \<open>+\<close> and \<open>*\<close> wrap.
\<close>

type_synonym u256 = "256 word"
type_synonym address = "160 word"
type_synonym Stack = "u256 list"
type_synonym Memory = bytes

datatype vm_error = OutOfGasError | StackError | RuntimePanic

text \<open>
  The interface \<open>Database\<close> (the world state): its reading methods are functions, and
  \<open>AddRefund\<close> adds to the refund counter \<open>refund\<close>.
\<close>

record Database =
  GetState :: "address \<Rightarrow> u256 \<Rightarrow> u256"
  GetBalance :: "address \<Rightarrow> nat"
  HasSuicided :: "address \<Rightarrow> bool"
  Empty :: "address \<Rightarrow> bool"
  Exist :: "address \<Rightarrow> bool"
  refund :: nat

definition AddRefund :: "Database \<Rightarrow> nat \<Rightarrow> Database" where
  "AddRefund db g = db\<lparr>refund := refund db + g\<rparr>"

text \<open>
  \<open>Environment\<close>: \<open>IsEIP158\<close> is the value of \<open>env.ChainConfig().IsEIP158(env.BlockNumber)\<close>,
  \<open>Db\<close> is \<open>env.Db()\<close>.
\<close>

record Environment =
  IsEIP158 :: bool
  Db :: Database

record Contract =
  Address :: address
  gas64 :: "64 word"

record GasTable =
  ExtcodeSize :: "64 word"
  Balance :: "64 word"
  SLoad :: "64 word"
  Calls :: "64 word"
  Suicide :: "64 word"
  CreateBySuicide :: "64 word"

text \<open>
  The gas constants of the packages \<open>vm\<close> and \<open>params\<close> are declared outside the sources at
  hand; they are the fields of a record that the meter takes as an argument.
  \<open>float64Max x y\<close> stands for \<open>uint64(math.Max(float64(x), float64(y)))\<close>, the one
  floating-point computation of the meter.
\<close>

record vm_params =
  GasFastestStep64 :: "64 word"
  LogGas64 :: "64 word"
  LogTopicGas64 :: "64 word"
  LogDataGas64 :: "64 word"
  ExpByteGas64 :: "64 word"
  SstoreSetGas64 :: "64 word"
  SstoreClearGas64 :: "64 word"
  SstoreResetGas64 :: "64 word"
  KeccakWordGas64 :: "64 word"
  CopyGas64 :: "64 word"
  CallNewAccountGas64 :: "64 word"
  CallValueTransferGas64 :: "64 word"
  SuicideRefundGas :: nat
  SstoreRefundGas :: nat
  MemoryGas :: nat
  QuadCoeffDiv :: nat
  float64Max :: "64 word \<Rightarrow> 64 word \<Rightarrow> 64 word"

text \<open>
  Modelled from the spec: the helpers \<open>math.IsAddSafe\<close>, \<open>math.IsMulSafe\<close>, \<open>toWordSize\<close>,
  \<open>calcMemSize\<close>, \<open>calcQuadMemGas\<close>, \<open>callGas\<close>, \<open>baseCalc\<close> and the methods \<open>require\<close>,
  \<open>peek\<close> of the stack, none of which is among the sources.  The spec: checked \<open>add\<close>
  and \<open>mul\<close> over unsigned 64-bit integers report overflow; \<open>word_ceil(n)\<close> is
  \<open>n / 32\<close> rounded up; \<open>mem_size(offset, length)\<close> "computes \<open>offset + length\<close> rounded up
  to a 32-byte word, reporting overflow when either exceeds 64-bit range"; the
  memory-growth charge is, with \<open>new_hw = max(current_hw, word_ceil(size) * 32)\<close>,
  \<open>w_new = new_hw / 32\<close> and \<open>w_cur = current_hw / 32\<close>,
  \<open>MemoryGas * (w_new - w_cur) + (w_new\<^sup>2 - w_cur\<^sup>2) / QuadCoeff\<close> with overflow reported;
  the forwarded gas is \<open>min(requested, available - gas - (available - gas) / 64)\<close>;
  the base step is "\<open>gas = instr.base_gas\<close>, verifying the stack has at least \<open>instr.pop\<close>
  items".  In the meter \<open>toWordSize\<close> returns one \<open>uint64\<close>, and the flag of
  \<open>calcQuadMemGas\<close> is discarded.
\<close>

definition IsAddSafe :: "64 word \<Rightarrow> 64 word \<Rightarrow> bool" where
  "IsAddSafe x y = (unat x + unat y < 2 ^ 64)"

definition IsMulSafe :: "64 word \<Rightarrow> 64 word \<Rightarrow> bool" where
  "IsMulSafe x y = (unat x * unat y < 2 ^ 64)"

definition toWordSize :: "64 word \<Rightarrow> 64 word" where
  "toWordSize n = of_nat ((unat n + 31) div 32)"

definition calcMemSize :: "u256 \<Rightarrow> u256 \<Rightarrow> 64 word \<times> bool" where
  "calcMemSize off l =
     (if 2 ^ 64 \<le> unat off \<or> 2 ^ 64 \<le> unat l then (0, True)
      else let rounded = (unat off + unat l + 31) div 32 * 32
           in if 2 ^ 64 \<le> rounded then (0, True) else (of_nat rounded, False))"

definition calcQuadMemGas :: "vm_params \<Rightarrow> Memory \<Rightarrow> 64 word \<Rightarrow> 64 word \<times> bool" where
  "calcQuadMemGas P mem newMemSize =
     (let current_hw = length mem;
          new_hw = max current_hw ((unat newMemSize + 31) div 32 * 32);
          w_new = new_hw div 32;
          w_cur = current_hw div 32;
          linear = MemoryGas P * (w_new - w_cur);
          quad = (w_new * w_new - w_cur * w_cur) div QuadCoeffDiv P
      in if 2 ^ 64 \<le> w_new * w_new \<or> 2 ^ 64 \<le> linear \<or> 2 ^ 64 \<le> linear + quad
         then (0, True) else (of_nat (linear + quad), False))"

definition callGas :: "GasTable \<Rightarrow> 64 word \<Rightarrow> 64 word \<Rightarrow> 64 word \<Rightarrow> 64 word" where
  "callGas gasTable availableGas base callCost =
     min callCost (availableGas - base - (availableGas - base) div 64)"

definition require :: "Stack \<Rightarrow> int \<Rightarrow> vm_error + unit" where
  "require st n = (if int (length st) < n then Inl StackError else Inr ())"

definition baseCalc :: "instruction \<Rightarrow> Stack \<Rightarrow> vm_error + 64 word" where
  "baseCalc instr st =
     (case require st (spop instr) of Inl e \<Rightarrow> Inl e | Inr u \<Rightarrow> Inr (instr_gas instr))"

text \<open>
  \<open>stack.data[stack.len()-n]\<close>; an index outside the slice is a run-time panic.
  \<open>stack.peek()\<close> is \<open>peekAt st 1\<close>.
\<close>

definition peekAt :: "Stack \<Rightarrow> nat \<Rightarrow> vm_error + u256" where
  "peekAt st n = (if 0 < n \<and> n \<le> length st then Inr (st ! (length st - n)) else Inl RuntimePanic)"

text \<open>Sequencing of steps that may fail: the first error ends the function.\<close>

definition bindE :: "vm_error + 'a \<Rightarrow> ('a \<Rightarrow> vm_error + 'b) \<Rightarrow> vm_error + 'b" where
  "bindE m f = (case m of Inl e \<Rightarrow> Inl e | Inr v \<Rightarrow> f v)"

text \<open>\<open>len(x.Bytes())\<close>: the number of bytes of the big-endian representation.\<close>

fun byteLen :: "nat \<Rightarrow> nat" where
  "byteLen n = (if n = 0 then 0 else Suc (byteLen (n div 256)))"

text \<open>
  The cases of the \<open>switch\<close>.  A case yields \<open>(newMemSize, sizeFault, gas)\<close> for the common
  end of the function, or ends the function with an error.  The lines
  \<open>newMemSize, sizeFault = calcMemSize(off, len); memGas, _ := calcQuadMemGas(mem, newMemSize);
  if !math.IsAddSafe(gas, memGas) {...}; gas += memGas\<close>, which the cases \<open>MLOAD\<close>, \<open>MSTORE8\<close>,
  \<open>MSTORE\<close>, \<open>RETURN\<close>, \<open>CREATE\<close> and the end of \<open>LOG\<close> repeat, are \<open>memCase\<close>.
\<close>

type_synonym case_result = "vm_error + (64 word \<times> bool \<times> 64 word)"

definition memCase :: "vm_params \<Rightarrow> Memory \<Rightarrow> 64 word \<Rightarrow> u256 \<Rightarrow> u256 \<Rightarrow> case_result" where
  "memCase P mem gas off l =
     (case calcMemSize off l of
        (newMemSize, sizeFault) \<Rightarrow>
          (case calcQuadMemGas P mem newMemSize of
             (memGas, flag) \<Rightarrow>
               (if \<not> IsAddSafe gas memGas then Inl OutOfGasError
                else Inr (newMemSize, sizeFault, gas + memGas))))"

text \<open>
  The cases \<open>CALLDATACOPY\<close> and \<open>CODECOPY\<close> (the same lines twice), and \<open>SHA3\<close>, which
  differs by the check of \<open>BitLen\<close> and by the price of a word.
\<close>

definition copyCase ::
  "vm_params \<Rightarrow> Memory \<Rightarrow> 64 word \<Rightarrow> bool \<Rightarrow> 64 word \<Rightarrow> u256 \<Rightarrow> u256 \<Rightarrow> case_result" where
  "copyCase P mem gas checkBitLen wordGas off l =
     (case calcMemSize off l of
        (newMemSize, sizeFault) \<Rightarrow>
          (if sizeFault then Inl OutOfGasError
           else if checkBitLen \<and> 2 ^ 64 \<le> unat l then Inl OutOfGasError
           else let words = toWordSize (ucast l)
                in if \<not> IsMulSafe words wordGas then Inl OutOfGasError
                   else let wordsGas = words * wordGas
                        in if \<not> IsAddSafe gas wordsGas then Inl OutOfGasError
                           else let gas = gas + wordsGas
                                in (case calcQuadMemGas P mem newMemSize of
                                      (memGas, flag) \<Rightarrow>
                                        (if \<not> IsAddSafe gas memGas then Inl OutOfGasError
                                         else Inr (newMemSize, sizeFault, gas + memGas)))))"

text \<open>
  The case \<open>EXTCODECOPY\<close>: it assigns \<open>memGas\<close> and checks \<open>IsAddSafe(gas, memGas)\<close>, and
  has no \<open>gas += memGas\<close>.
\<close>

definition extCodeCopyCase :: "vm_params \<Rightarrow> Memory \<Rightarrow> 64 word \<Rightarrow> u256 \<Rightarrow> u256 \<Rightarrow> case_result" where
  "extCodeCopyCase P mem gas off l =
     (case calcMemSize off l of
        (newMemSize, sizeFault) \<Rightarrow>
          (if sizeFault then Inl OutOfGasError
           else let words = toWordSize (ucast l)
                in if \<not> IsMulSafe words (CopyGas64 P) then Inl OutOfGasError
                   else let wordsGas = words * CopyGas64 P
                        in if \<not> IsAddSafe gas wordsGas then Inl OutOfGasError
                           else let gas = gas + wordsGas
                                in (case calcQuadMemGas P mem newMemSize of
                                      (memGas, flag) \<Rightarrow>
                                        (if \<not> IsAddSafe gas memGas then Inl OutOfGasError
                                         else Inr (newMemSize, sizeFault, gas)))))"

definition logCase :: "vm_params \<Rightarrow> Memory \<Rightarrow> 64 word \<Rightarrow> OpCode \<Rightarrow> Stack \<Rightarrow> case_result" where
  "logCase P mem gas opc st =
     (let n = unat (opc - LOG0)
      in bindE (require st (int n + 2)) (\<lambda>u.
         bindE (peekAt st 2) (\<lambda>mSize.
         bindE (peekAt st 1) (\<lambda>mStart.
           if 2 ^ 64 \<le> unat mSize then Inl OutOfGasError
           else let msize64 = (ucast mSize :: 64 word);
                    gas = (gas + LogGas64 P) + (of_nat n * LogTopicGas64 P)
                in if \<not> IsMulSafe msize64 (LogDataGas64 P) then Inl OutOfGasError
                   else let gasLogData = msize64 * LogDataGas64 P
                        in if \<not> IsAddSafe gas gasLogData then Inl OutOfGasError
                           else memCase P mem (gas + gasLogData) mStart mSize))))"

definition expCase :: "vm_params \<Rightarrow> 64 word \<Rightarrow> Stack \<Rightarrow> case_result" where
  "expCase P gas st =
     bindE (peekAt st 2) (\<lambda>e.
       let x = (of_nat (byteLen (unat e)) :: 64 word)
       in if \<not> IsMulSafe x (ExpByteGas64 P) then Inl OutOfGasError
          else let x = x * ExpByteGas64 P
               in if \<not> IsAddSafe gas x then Inl OutOfGasError
                  else Inr (0, False, gas + x))"

text \<open>The cases that write: \<open>SUICIDE\<close> and \<open>SSTORE\<close> may add to the refund counter.\<close>

definition suicideCase ::
  "vm_params \<Rightarrow> GasTable \<Rightarrow> Environment \<Rightarrow> Contract \<Rightarrow> Database \<Rightarrow> 64 word \<Rightarrow> Stack
     \<Rightarrow> case_result \<times> Database" where
  "suicideCase P gasTable env contract statedb gas st =
     (case (if CreateBySuicide gasTable > 0
            then bindE (peekAt st 1) (\<lambda>topItem.
                   let gas = gas + Suicide gasTable;
                       addr = (ucast topItem :: address)
                   in if IsEIP158 env
                      then (let empty = Empty (Db env) addr;
                                transfersValue = (GetBalance statedb (Address contract) \<noteq> 0)
                            in if empty \<and> transfersValue
                               then Inr (gas + CreateBySuicide gasTable) else Inr gas)
                      else (let exist = Exist (Db env) addr
                            in if \<not> exist then Inr (gas + CreateBySuicide gasTable) else Inr gas))
            else Inr gas) of
        Inl e \<Rightarrow> (Inl e, statedb)
      | Inr gas \<Rightarrow>
          (Inr (0, False, gas),
           if \<not> HasSuicided statedb (Address contract)
           then AddRefund statedb (SuicideRefundGas P) else statedb))"

definition sstoreCase ::
  "vm_params \<Rightarrow> Contract \<Rightarrow> Database \<Rightarrow> Stack \<Rightarrow> case_result \<times> Database" where
  "sstoreCase P contract statedb st =
     (case bindE (require st 2) (\<lambda>u. bindE (peekAt st 2) (\<lambda>y. bindE (peekAt st 1) (\<lambda>x. Inr (y, x)))) of
        Inl e \<Rightarrow> (Inl e, statedb)
      | Inr (y, x) \<Rightarrow>
          (let val = GetState statedb (Address contract) x
           in if val = 0 \<and> y \<noteq> 0 then (Inr (0, False, SstoreSetGas64 P), statedb)
              else if val \<noteq> 0 \<and> y = 0
                then (Inr (0, False, SstoreClearGas64 P), AddRefund statedb (SstoreRefundGas P))
              else (Inr (0, False, SstoreResetGas64 P), statedb)))"

text \<open>
  The cases \<open>CALL\<close>/\<open>CALLCODE\<close> and \<open>DELEGATECALL\<close> replace the top of the stack.  The stack
  is replaced before the last check \<open>IsAddSafe(gas, cg)\<close>, so a case gives the stack back
  with an error as well.
\<close>

definition callCase ::
  "vm_params \<Rightarrow> GasTable \<Rightarrow> Environment \<Rightarrow> Contract \<Rightarrow> Memory \<Rightarrow> OpCode \<Rightarrow> Stack
     \<Rightarrow> case_result \<times> Stack" where
  "callCase P gasTable env contract mem opc st =
     (case bindE (peekAt st 3) (\<lambda>callValue.
             let gas = Calls gasTable;
                 transfersValue = (callValue \<noteq> 0)
             in bindE (if opc = CALL
                       then bindE (peekAt st 2) (\<lambda>a.
                              let addr = (ucast a :: address)
                              in if IsEIP158 env
                                 then (if Empty (Db env) addr \<and> transfersValue
                                       then (if \<not> IsAddSafe gas (CallNewAccountGas64 P)
                                             then Inl OutOfGasError
                                             else Inr (gas + CallNewAccountGas64 P))
                                       else Inr gas)
                                 else (if \<not> Exist (Db env) addr
                                       then (if \<not> IsAddSafe gas (CallNewAccountGas64 P)
                                             then Inl OutOfGasError
                                             else Inr (gas + CallNewAccountGas64 P))
                                       else Inr gas))
                       else Inr gas) (\<lambda>gas.
                bindE (if transfersValue
                       then (if \<not> IsAddSafe gas (CallValueTransferGas64 P) then Inl OutOfGasError
                             else Inr (gas + CallValueTransferGas64 P))
                       else Inr gas) (\<lambda>gas.
                bindE (peekAt st 6) (\<lambda>xOff. bindE (peekAt st 7) (\<lambda>xLen.
                  case calcMemSize xOff xLen of
                    (x, xSizeFault) \<Rightarrow>
                      if xSizeFault then Inl OutOfGasError
                      else bindE (peekAt st 4) (\<lambda>yOff. bindE (peekAt st 5) (\<lambda>yLen.
                             case calcMemSize yOff yLen of
                               (y, ySizeFault) \<Rightarrow>
                                 if ySizeFault then Inl OutOfGasError
                                 else let newMemSize = (if y > x then y else x)
                                      in (case calcQuadMemGas P mem newMemSize of
                                            (memGas, flag) \<Rightarrow>
                                              if \<not> IsAddSafe gas memGas then Inl OutOfGasError
                                              else bindE (peekAt st 1) (\<lambda>topItem.
                                                     Inr (newMemSize, gas + memGas, topItem))))))))))
      of
        Inl e \<Rightarrow> (Inl e, st)
      | Inr (newMemSize, gas, topItem) \<Rightarrow>
          (let cg = callGas gasTable (gas64 contract) gas (ucast topItem);
               st' = st[length st - 1 := ucast cg]
           in if \<not> IsAddSafe gas cg then (Inl OutOfGasError, st')
              else (Inr (newMemSize, False, gas + cg), st')))"

definition delegateCallCase ::
  "vm_params \<Rightarrow> GasTable \<Rightarrow> Contract \<Rightarrow> Memory \<Rightarrow> Stack \<Rightarrow> case_result \<times> Stack" where
  "delegateCallCase P gasTable contract mem st =
     (case (let gas = Calls gasTable
            in bindE (peekAt st 5) (\<lambda>xOff. bindE (peekAt st 6) (\<lambda>xLen.
                 case calcMemSize xOff xLen of
                   (x, xSizeFault) \<Rightarrow>
                     if xSizeFault then Inl OutOfGasError
                     else bindE (peekAt st 3) (\<lambda>yOff. bindE (peekAt st 4) (\<lambda>yLen.
                            case calcMemSize yOff yLen of
                              (y, ySizeFault) \<Rightarrow>
                                if ySizeFault then Inl OutOfGasError
                                else let newMemSize = float64Max P x y
                                     in (case calcQuadMemGas P mem newMemSize of
                                           (memGas, flag) \<Rightarrow>
                                             if \<not> IsAddSafe gas memGas then Inl OutOfGasError
                                             else bindE (peekAt st 1) (\<lambda>topItem.
                                                    Inr (newMemSize, gas + memGas, topItem))))))))
      of
        Inl e \<Rightarrow> (Inl e, st)
      | Inr (newMemSize, gas, topItem) \<Rightarrow>
          (let cg = callGas gasTable (gas64 contract) gas (ucast topItem);
               st' = st[length st - 1 := ucast cg]
           in if \<not> IsAddSafe gas cg then (Inl OutOfGasError, st')
              else (Inr (newMemSize, False, gas + cg), st')))"

text \<open>The cases that neither write to the world state nor to the stack.\<close>

definition pureCase ::
  "vm_params \<Rightarrow> GasTable \<Rightarrow> Memory \<Rightarrow> 64 word \<Rightarrow> OpCode \<Rightarrow> Stack \<Rightarrow> case_result" where
  "pureCase P gasTable mem gas opc st =
     (if opc = EXTCODESIZE then Inr (0, False, ExtcodeSize gasTable)
      else if opc = BALANCE then Inr (0, False, Balance gasTable)
      else if opc = SLOAD then Inr (0, False, SLoad gasTable)
      else if opc \<ge> SWAP1 \<and> opc \<le> SWAP16 then
        bindE (require st (int (unat (opc - SWAP1 + 2)))) (\<lambda>u. Inr (0, False, GasFastestStep64 P))
      else if opc \<ge> DUP1 \<and> opc \<le> DUP16 then
        bindE (require st (int (unat (opc - DUP1 + 1)))) (\<lambda>u. Inr (0, False, GasFastestStep64 P))
      else if opc \<ge> LOG0 \<and> opc \<le> LOG4 then logCase P mem gas opc st
      else if opc = EXP then expCase P gas st
      else if opc = MLOAD then bindE (peekAt st 1) (\<lambda>off. memCase P mem gas off 32)
      else if opc = MSTORE8 then bindE (peekAt st 1) (\<lambda>off. memCase P mem gas off 1)
      else if opc = MSTORE then bindE (peekAt st 1) (\<lambda>off. memCase P mem gas off 32)
      else if opc = RETURN then
        bindE (peekAt st 1) (\<lambda>off. bindE (peekAt st 2) (\<lambda>l. memCase P mem gas off l))
      else if opc = SHA3 then
        bindE (peekAt st 1) (\<lambda>off. bindE (peekAt st 2) (\<lambda>l.
          copyCase P mem gas True (KeccakWordGas64 P) off l))
      else if opc = CALLDATACOPY then
        bindE (peekAt st 1) (\<lambda>off. bindE (peekAt st 3) (\<lambda>l.
          copyCase P mem gas False (CopyGas64 P) off l))
      else if opc = CODECOPY then
        bindE (peekAt st 1) (\<lambda>off. bindE (peekAt st 3) (\<lambda>l.
          copyCase P mem gas False (CopyGas64 P) off l))
      else if opc = EXTCODECOPY then
        bindE (peekAt st 2) (\<lambda>off. bindE (peekAt st 4) (\<lambda>l. extCodeCopyCase P mem gas off l))
      else if opc = CREATE then
        bindE (peekAt st 2) (\<lambda>off. bindE (peekAt st 3) (\<lambda>l. memCase P mem gas off l))
      else Inr (0, False, gas))"

text \<open>
  \<open>calculateGasAndSize\<close>: the result \<open>(newMemSize, gas)\<close> or the error, together with the
  world state and the stack after the call.
\<close>

definition finish :: "case_result \<Rightarrow> vm_error + (64 word \<times> 64 word)" where
  "finish r =
     (case r of
        Inl e \<Rightarrow> Inl e
      | Inr (newMemSize, sizeFault, gas) \<Rightarrow>
          if sizeFault then Inl OutOfGasError else Inr (toWordSize newMemSize * 32, gas))"

definition calculateGasAndSize ::
  "vm_params \<Rightarrow> GasTable \<Rightarrow> Environment \<Rightarrow> Contract \<Rightarrow> instruction \<Rightarrow> Database \<Rightarrow> Memory
     \<Rightarrow> Stack \<Rightarrow> (vm_error + (64 word \<times> 64 word)) \<times> Database \<times> Stack" where
  "calculateGasAndSize P gasTable env contract instr statedb mem st =
     (case baseCalc instr st of
        Inl err \<Rightarrow> (Inl err, statedb, st)
      | Inr gas \<Rightarrow>
          (let opc = instr_op instr
           in if opc = SUICIDE then
                (case suicideCase P gasTable env contract statedb gas st of
                   (r, statedb') \<Rightarrow> (finish r, statedb', st))
              else if opc = SSTORE then
                (case sstoreCase P contract statedb st of
                   (r, statedb') \<Rightarrow> (finish r, statedb', st))
              else if opc = CALL \<or> opc = CALLCODE then
                (case callCase P gasTable env contract mem opc st of
                   (r, st') \<Rightarrow> (finish r, statedb, st'))
              else if opc = DELEGATECALL then
                (case delegateCallCase P gasTable contract mem st of
                   (r, st') \<Rightarrow> (finish r, statedb, st'))
              else (finish (pureCase P gasTable mem gas opc st), statedb, st)))"

text \<open>
  A concrete set of constants for the evaluations below: the values of the protocol's
  parameter file (\<open>CopyGas = 3\<close>, \<open>MemoryGas = 3\<close>, \<open>QuadCoeffDiv = 512\<close>, \<open>SstoreSetGas = 20000\<close>,
  ...), a gas table of the spec's scenario (\<open>Calls = 700\<close>), and a world with no accounts
  and empty storage.
\<close>

definition example_params :: vm_params where
  "example_params =
     \<lparr>GasFastestStep64 = 2, LogGas64 = 375, LogTopicGas64 = 375, LogDataGas64 = 8,
      ExpByteGas64 = 10, SstoreSetGas64 = 20000, SstoreClearGas64 = 5000,
      SstoreResetGas64 = 5000, KeccakWordGas64 = 6, CopyGas64 = 3,
      CallNewAccountGas64 = 25000, CallValueTransferGas64 = 9000,
      SuicideRefundGas = 24000, SstoreRefundGas = 15000, MemoryGas = 3, QuadCoeffDiv = 512,
      float64Max = max\<rparr>"

definition example_gasTable :: GasTable where
  "example_gasTable =
     \<lparr>ExtcodeSize = 700, Balance = 400, SLoad = 200, Calls = 700, Suicide = 5000,
      CreateBySuicide = 25000\<rparr>"

definition example_db :: Database where
  "example_db =
     \<lparr>GetState = (\<lambda>a k. 0), GetBalance = (\<lambda>a. 0), HasSuicided = (\<lambda>a. False),
      Empty = (\<lambda>a. True), Exist = (\<lambda>a. False), refund = 0\<rparr>"

definition example_env :: Environment where
  "example_env = \<lparr>IsEIP158 = True, Db = example_db\<rparr>"

definition example_instr :: "OpCode \<Rightarrow> 64 word \<Rightarrow> int \<Rightarrow> instruction" where
  "example_instr opc g pops =
     \<lparr>instr_op = opc, instr_pc = 0, instr_fn = None, instr_data = None, instr_gas = g,
      spop = pops, spush = 0, returns = False\<rparr>"

section \<open>Binary Merkle tree: proofs\<close>

lemma bit_nat_small: "i < 2 * 2 ^ k \<Longrightarrow> bit (i::nat) n \<Longrightarrow> n \<le> k"
proof -
  assume a: "i < 2 * 2 ^ k" and b: "bit i n"
  have "2 ^ n \<le> i" using b
    by (simp add: bit_iff_odd) (metis div_less even_zero linorder_not_less)
  then have "(2::nat) ^ n < 2 ^ (k + 1)" using a by simp
  then have "n < k + 1" by (rule power_less_imp_less_exp [rotated]) simp
  then show ?thesis by simp
qed

lemma pow2_lt_64: "j < 64 \<Longrightarrow> (2::nat) ^ j < 2 ^ 64"
  by (rule power_strict_increasing) simp_all

lemma unat_pow2: "j < 64 \<Longrightarrow> unat (2 ^ j :: 64 word) = 2 ^ j"
proof -
  assume j: "j < 64"
  have "(2 ^ j :: 64 word) = of_nat (2 ^ j)" by simp
  then have "unat (2 ^ j :: 64 word) = 2 ^ j mod 2 ^ 64" by (simp only: unat_of_nat) simp
  then show ?thesis using pow2_lt_64 [OF j] by simp
qed

lemma pow2_word_le: "(2 ^ j :: 64 word) \<le> 2 ^ 63"
proof (cases "j < 64")
  case True
  then have "(2::nat) ^ j \<le> 2 ^ 63" by (intro power_increasing) simp_all
  then show ?thesis using True unat_pow2 [of j] unat_pow2 [of 63] by (simp add: word_le_nat_alt)
next
  case False
  then have z: "(2 ^ j :: 64 word) = 0" by simp
  show ?thesis unfolding z by (rule word_zero_le)
qed

lemma GetHeight_loop_diverges:
  assumes "(2 ^ 63 :: 64 word) < cnt"
  shows "GetHeight_loop cnt h = None"
proof -
  have big: "(2 ^ j :: 64 word) < cnt" for j
    using pow2_word_le [of j] assms by simp
  have "c \<noteq> cnt" if "GetHeight_loop c h = Some y" for c y
    by (rule GetHeight_loop.raw_induct[where P="\<lambda>c h y. c \<noteq> cnt", OF _ that]) (auto simp: big split: if_splits)
  then show ?thesis by (cases "GetHeight_loop cnt h") auto
qed

lemma GetHeight_loop_Some:
  "j \<le> k \<Longrightarrow> k \<le> 63 \<Longrightarrow> unat c \<le> 2 ^ k \<Longrightarrow> (\<forall>j'<k. 2 ^ j' < unat c)
   \<Longrightarrow> GetHeight_loop c j = Some k"
proof (induction "k - j" arbitrary: j)
  case 0
  then have "j = k" by simp
  moreover have "\<not> 2 ^ k < c" using 0 unat_pow2 [of k] by (simp add: word_less_nat_alt)
  ultimately show ?case by (subst GetHeight_loop.simps) simp
next
  case (Suc d)
  then have jk: "j < k" by simp
  then have "2 ^ j < c" using Suc unat_pow2 [of j] by (simp add: word_less_nat_alt)
  moreover have "GetHeight_loop c (Suc j) = Some k" using Suc jk by (intro Suc.hyps) simp_all
  ultimately show ?case by (subst GetHeight_loop.simps) simp
qed

lemma ex_height:
  assumes "0 < n" "n \<le> 2 ^ 63"
  shows "\<exists>k\<le>63. n \<le> 2 ^ k \<and> (\<forall>j<k. (2::nat) ^ j < n)"
proof -
  define k where "k = (LEAST k. n \<le> 2 ^ k)"
  have a: "n \<le> 2 ^ k" unfolding k_def using assms(2) by (rule LeastI)
  have b: "k \<le> 63" unfolding k_def using assms(2) by (rule Least_le)
  have c: "\<not> n \<le> 2 ^ j" if "j < k" for j using that not_less_Least unfolding k_def by blast
  show ?thesis using a b c by (intro exI [of _ k]) (auto simp: not_le)
qed

lemma GetHeight_Some:
  assumes "0 < n" "n \<le> 2 ^ k" "\<forall>j<k. (2::nat) ^ j < n" "k \<le> 63"
  shows "GetHeight (of_nat n) = Some (Suc k)"
proof -
  have "(2::nat) ^ k < 2 ^ 64" using assms(4) by (intro pow2_lt_64) simp
  then have lt: "n < 2 ^ 64" using assms(2) by simp
  then have u: "unat (of_nat n :: 64 word) = n" by (simp add: unat_of_nat)
  then have nz: "(of_nat n :: 64 word) \<noteq> 0" using assms(1) by (metis unat_0 less_numeral_extra(3))
  have "GetHeight_loop (of_nat n) 0 = Some k"
    using assms u by (intro GetHeight_loop_Some) simp_all
  then show ?thesis using nz by (simp add: GetHeight_def)
qed

lemma shape_len: "shape H h ls n \<Longrightarrow> 0 < length ls \<and> length ls \<le> 2 ^ (h - 1)"
proof (induction H h ls n rule: shape.induct)
  case (1 H ls n)
  then show ?case by simp
next
  case (2 H ls n)
  then show ?case by simp
next
  case (3 H k ls n)
  from "3.prems" obtain a where a: "child0 n = Some a" by (auto split: option.splits)
  show ?case
  proof (cases "child1 n")
    case None
    then have "length ls \<le> 2 ^ k" "shape H (Suc k) ls a" using "3.prems" a by simp_all
    moreover from this have "0 < length ls" using "3.IH"(1) [OF a None] by simp
    ultimately show ?thesis by simp
  next
    case (Some b)
    then have "2 ^ k < length ls" "shape H (Suc k) (drop (2 ^ k) ls) b" using "3.prems" a by simp_all
    moreover from this have "length (drop (2 ^ k) ls) \<le> 2 ^ k" using "3.IH"(3) [OF a Some] by simp
    ultimately show ?thesis by auto
  qed
qed

lemma buildNode_Nil: "buildNode H [] h = (None, [])"
proof (cases h)
  case 0
  then show ?thesis by simp
next
  case (Suc j)
  then show ?thesis by (cases j) simp_all
qed

lemma buildNode_shape:
  "data \<noteq> [] \<Longrightarrow> \<exists>n. buildNode H data (Suc k) = (Some n, drop (2 ^ k) data)
                         \<and> shape H (Suc k) (take (2 ^ k) data) n"
proof (induction k arbitrary: data)
  case 0
  then show ?case by (cases data) auto
next
  case (Suc k)
  from Suc.IH [OF Suc.prems] obtain a where
    a: "buildNode H data (Suc k) = (Some a, drop (2 ^ k) data)"
       "shape H (Suc k) (take (2 ^ k) data) a" by blast
  show ?case
  proof (cases "drop (2 ^ k) data = []")
    case True
    then have len: "length data \<le> 2 ^ k" by simp
    then show ?thesis using a Suc.prems True
      by (simp add: buildNode_Nil makeHash_def)
  next
    case False
    from Suc.IH [OF False] obtain b where
      b: "buildNode H (drop (2 ^ k) data) (Suc k) = (Some b, drop (2 ^ k) (drop (2 ^ k) data))"
         "shape H (Suc k) (take (2 ^ k) (drop (2 ^ k) data)) b" by blast
    have "2 ^ k < length data" using False by simp
    then show ?thesis using a b Suc.prems
      by (simp add: makeHash_def min_def take_drop mult_2 add.commute)
  qed
qed

lemma validate_shape:
  "shape H h ls n \<Longrightarrow> validate H (Some n) = (of_nat (length ls), h, None)"
proof (induction H h ls n rule: shape.induct)
  case (1 H ls n)
  then show ?case by simp
next
  case (2 H ls n)
  then show ?case by (cases n) auto
next
  case (3 H k ls n)
  obtain l c0 c1 where n: "n = Node l c0 c1" by (cases n)
  show ?case
  proof (cases c1)
    case None
    then show ?thesis using 3 n by (auto split: option.splits simp: makeHash_def)
  next
    case (Some b)
    with 3 n obtain a where c0: "c0 = Some a" by (auto split: option.splits)
    have lens: "min (length ls) (2 ^ k) + (length ls - 2 ^ k) = length ls" using 3 n Some c0 by simp
    have "(of_nat (min (length ls) (2 ^ k)) :: 64 word) + of_nat (length ls - 2 ^ k) = of_nat (length ls)"
      unfolding of_nat_add [symmetric] lens ..
    then show ?thesis using 3 n Some c0 by (simp add: makeHash_def)
  qed
qed

lemma W2: "k \<le> 62 \<Longrightarrow> i < 2 * 2 ^ k \<Longrightarrow> drop_bit k (of_nat i :: 64 word) = of_nat (drop_bit k i)"
  by (rule bit_word_eqI) (auto simp: bit_simps dest: bit_nat_small)

lemma W3: "k \<le> 62 \<Longrightarrow> i < 2 * 2 ^ k \<Longrightarrow> (of_nat i :: 64 word) AND NOT (push_bit k 1) = of_nat (take_bit k i)"
  by (rule bit_word_eqI) (auto simp: bit_simps dest: bit_nat_small)

lemma W1: "k \<le> 62 \<Longrightarrow> i < 2 * 2 ^ k \<Longrightarrow> signed_drop_bit k (of_nat i :: 64 word) = drop_bit k (of_nat i)"
  by (rule bit_word_eqI) (auto simp: bit_simps bit_signed_drop_bit_iff dest: bit_nat_small)

lemma idx_low:
  assumes "k \<le> 62" "i < 2 ^ k"
  shows "drop_bit k (of_nat i :: 64 word) = 0" "signed_drop_bit k (of_nat i :: 64 word) = 0"
        "(of_nat i :: 64 word) AND NOT (push_bit k 1) = of_nat i"
proof -
  have i2: "i < 2 * 2 ^ k" using assms(2) by simp
  have d: "drop_bit k i = 0" using assms(2) by (simp add: drop_bit_eq_div)
  have t: "take_bit k i = i" using assms(2) by (simp add: take_bit_eq_mod)
  show "drop_bit k (of_nat i :: 64 word) = 0" using W2 [OF assms(1) i2] d by simp
  then show "signed_drop_bit k (of_nat i :: 64 word) = 0" using W1 [OF assms(1) i2] by simp
  show "(of_nat i :: 64 word) AND NOT (push_bit k 1) = of_nat i" using W3 [OF assms(1) i2] t by simp
qed

lemma idx_high:
  assumes "k \<le> 62" "2 ^ k \<le> i" "i < 2 * 2 ^ k"
  shows "drop_bit k (of_nat i :: 64 word) = 1" "signed_drop_bit k (of_nat i :: 64 word) = 1"
        "(of_nat i :: 64 word) AND NOT (push_bit k 1) = of_nat (i - 2 ^ k)"
proof -
  have "i div 2 ^ k = 1" using assms(2,3) by (simp add: div_nat_eqI)
  then have d: "drop_bit k i = 1" by (simp add: drop_bit_eq_div)
  have "i mod 2 ^ k = i - 2 ^ k" using assms(2,3) by (simp add: mod_nat_eqI)
  then have t: "take_bit k i = i - 2 ^ k" by (simp add: take_bit_eq_mod)
  show "drop_bit k (of_nat i :: 64 word) = 1" using W2 [OF assms(1,3)] d by simp
  then show "signed_drop_bit k (of_nat i :: 64 word) = 1" using W1 [OF assms(1,3)] by simp
  show "(of_nat i :: 64 word) AND NOT (push_bit k 1) = of_nat (i - 2 ^ k)"
    using W3 [OF assms(1,3)] t by simp
qed

lemma unat_of_nat64: "i < 2 ^ 64 \<Longrightarrow> unat (of_nat i :: 64 word) = i"
  by (simp add: unat_of_nat)

lemma cnt_mask_exact:
  assumes "k \<le> 62" "2 ^ k < unat c" "unat c < 2 * 2 ^ k"
  shows "unat ((c :: 64 word) AND NOT (push_bit k 1)) = unat c - 2 ^ k"
proof -
  have c: "c = of_nat (unat c)" by simp
  have "(2::nat) * 2 ^ k \<le> 2 ^ 64" using assms(1) power_increasing [of "k + 1" 64 "2::nat"] by simp
  then have lt: "unat c - 2 ^ k < 2 ^ 64" using assms(3) by simp
  have "c AND NOT (push_bit k 1) = of_nat (unat c - 2 ^ k)"
    using idx_high(3) [OF assms(1) _ assms(3)] assms(2) c by (metis less_imp_le_nat)
  then show ?thesis using unat_of_nat64 [OF lt] by simp
qed

lemma cnt_mask_full:
  assumes "k \<le> 62" "2 * 2 ^ k \<le> unat (c :: 64 word)"
  shows "2 ^ k \<le> unat (c AND NOT (push_bit k 1))"
proof -
  have eq: "drop_bit (Suc k) (c AND NOT (push_bit k 1)) = drop_bit (Suc k) c"
    by (rule bit_word_eqI) (auto simp: bit_simps dest: bit_imp_le_length)
  have "unat (drop_bit (Suc k) c) = unat c div 2 ^ Suc k"
    by (simp only: unat_drop_bit_eq) (simp only: drop_bit_eq_div)
  moreover have "1 \<le> unat c div 2 ^ Suc k" using assms(2)
    by (simp add: Suc_le_eq div_greater_zero_iff)
  ultimately have "1 \<le> unat (drop_bit (Suc k) (c AND NOT (push_bit k 1)))" using eq by simp
  then have "1 \<le> unat (c AND NOT (push_bit k 1)) div 2 ^ Suc k"
    by (simp only: unat_drop_bit_eq) (simp only: drop_bit_eq_div)
  then have "2 ^ Suc k \<le> unat (c AND NOT (push_bit k 1))"
    by (simp add: Suc_le_eq div_greater_zero_iff)
  then show ?thesis by simp
qed

lemma cnt_gt_pow: "k \<le> 62 \<Longrightarrow> ((2 ^ k :: 64 word) < c) = (2 ^ k < unat c)"
  using unat_pow2 [of k] by (simp add: word_less_nat_alt)

lemma cnt_gt_idx: "i < unat (c :: 64 word) \<Longrightarrow> \<not> c \<le> of_nat i"
proof -
  assume a: "i < unat c"
  have "unat c < 2 ^ 64" using unsigned_less [of c] by simp
  then have "unat (of_nat i :: 64 word) = i" using a by (intro unat_of_nat64) simp
  then show ?thesis using a by (simp add: word_le_nat_alt)
qed

lemma prove_check:
  "shape H h ls n \<Longrightarrow> h \<le> 64 \<Longrightarrow> i < length ls \<Longrightarrow> okc h (length ls) c \<Longrightarrow>
   \<exists>p. proveNode h (Some n) (of_nat i) = Inr p \<and> p \<noteq> [] \<and> hd p = ls ! i
       \<and> checkNode H h p (of_nat i) c = (label n, True)"
proof (induction H h ls n arbitrary: i c rule: shape.induct)
  case (1 H ls n)
  then show ?case by simp
next
  case (2 H ls n)
  then have i0: "i = 0" and ls: "ls = [label n]" by simp_all
  have "0 < unat c" using 2 by (auto simp: okc_def)
  then have "\<not> c \<le> 0" by (simp add: word_le_nat_alt)
  then show ?case using i0 ls by simp
next
  case (3 H k ls n)
  from "3.prems"(1) obtain a where a: "child0 n = Some a" by (auto split: option.splits)
  have k: "k \<le> 62" using "3.prems"(2) by simp
  have k64: "Suc k \<le> 64" using k by simp
  note len = shape_len [OF "3.prems"(1)]
  then have i2: "i < 2 * 2 ^ k" using "3.prems"(3) by simp
  have ic: "\<not> c \<le> of_nat i"
  proof (rule cnt_gt_idx)
    show "i < unat c" using "3.prems"(3,4) len by (auto simp: okc_def)
  qed
  show ?case
  proof (cases "child1 n")
    case None
    then have sm: "length ls \<le> 2 ^ k" and sa: "shape H (Suc k) ls a" and lbl: "label n = H (label a)"
      using "3.prems"(1) a by simp_all
    have il: "i < 2 ^ k" using sm "3.prems"(3) by simp
    have uc: "unat c = length ls" using "3.prems"(4) sm len by (auto simp: okc_def)
    then have okc': "okc (Suc k) (length ls) c" by (simp add: okc_def)
    from "3.IH"(1) [OF a None sa k64 "3.prems"(3) okc'] obtain p where
      p: "proveNode (Suc k) (Some a) (of_nat i) = Inr p" "p \<noteq> []" "hd p = ls ! i"
         "checkNode H (Suc k) p (of_nat i) c = (label a, True)" by blast
    have ngt: "\<not> 2 ^ k < c" using uc sm cnt_gt_pow [OF k, of c] by simp
    have "proveNode (Suc (Suc k)) (Some n) (of_nat i) = Inr p"
      using p(1) a None idx_low [OF k il] by simp
    moreover have "checkNode H (Suc (Suc k)) p (of_nat i) c = (label n, True)"
      using p(2,4) ic ngt lbl idx_low [OF k il] by simp
    ultimately show ?thesis using p(2,3) by blast
  next
    case (Some b)
    then have big: "2 ^ k < length ls" and sa: "shape H (Suc k) (take (2 ^ k) ls) a"
      and sb: "shape H (Suc k) (drop (2 ^ k) ls) b" and lbl: "label n = H (label a @ label b)"
      using "3.prems"(1) a by simp_all
    have pos: "(0::nat) < 2 ^ k" by simp
    have "2 ^ k < unat c"
    proof -
      have "unat c = length ls \<or> 2 * 2 ^ k \<le> unat c" using "3.prems"(4) by (auto simp: okc_def)
      moreover have "(2::nat) ^ k < 2 * 2 ^ k" by simp
      ultimately show ?thesis using big by linarith
    qed
    then have gt: "2 ^ k < c" using cnt_gt_pow [OF k, of c] by simp
    show ?thesis
    proof (cases "i < 2 ^ k")
      case True
      have lt: "length (take (2 ^ k) ls) = 2 ^ k" using big by simp
      have i': "i < length (take (2 ^ k) ls)" using True lt by simp
      have okc': "okc (Suc k) (length (take (2 ^ k) ls)) (2 ^ k)"
        using unat_pow2 [of k] k lt by (simp add: okc_def)
      from "3.IH"(2) [OF a Some sa k64 i' okc'] obtain p where
        p: "proveNode (Suc k) (Some a) (of_nat i) = Inr p" "p \<noteq> []" "hd p = take (2 ^ k) ls ! i"
           "checkNode H (Suc k) p (of_nat i) (2 ^ k) = (label a, True)" by blast
      have ne: "c \<noteq> 2 ^ k" using gt by auto
      have "proveNode (Suc (Suc k)) (Some n) (of_nat i) = Inr (p @ [label b])"
        using p(1) a Some idx_low [OF k True] by simp
      moreover have "checkNode H (Suc (Suc k)) (p @ [label b]) (of_nat i) c = (label n, True)"
        using p(2,4) ic gt ne lbl idx_low [OF k True] by (simp add: nth_append)
      moreover have "hd (p @ [label b]) = ls ! i" using p(2,3) True by simp
      ultimately show ?thesis by blast
    next
      case False
      then have ih: "2 ^ k \<le> i" by simp
      have i': "i - 2 ^ k < length (drop (2 ^ k) ls)" using ih "3.prems"(3) by simp
      have okc': "okc (Suc k) (length (drop (2 ^ k) ls)) (c AND NOT (push_bit k 1))"
      proof (cases "length ls < 2 * 2 ^ k")
        case True
        then have uc: "unat c = length ls" using "3.prems"(4) by (auto simp: okc_def)
        show ?thesis using cnt_mask_exact [OF k, of c] uc big True by (simp add: okc_def)
      next
        case False
        then have full: "length ls = 2 * 2 ^ k" using len by simp
        then have "2 * 2 ^ k \<le> unat c" using "3.prems"(4) by (auto simp: okc_def)
        from cnt_mask_full [OF k this] show ?thesis using full by (simp add: okc_def)
      qed
      from "3.IH"(3) [OF a Some sb k64 i' okc'] obtain p where
        p: "proveNode (Suc k) (Some b) (of_nat (i - 2 ^ k)) = Inr p" "p \<noteq> []"
           "hd p = drop (2 ^ k) ls ! (i - 2 ^ k)"
           "checkNode H (Suc k) p (of_nat (i - 2 ^ k)) (c AND NOT (push_bit k 1)) = (label b, True)"
        by blast
      have "proveNode (Suc (Suc k)) (Some n) (of_nat i) = Inr (p @ [label a])"
        using p(1) a Some idx_high [OF k ih i2] by simp
      moreover have "checkNode H (Suc (Suc k)) (p @ [label a]) (of_nat i) c = (label n, True)"
        using p(2,4) ic lbl idx_high [OF k ih i2] by (simp add: nth_append)
      moreover have "hd (p @ [label a]) = ls ! i" using p(2,3) ih "3.prems"(3) by simp
      ultimately show ?thesis by blast
    qed
  qed
qed

lemma GetHeight_0: "GetHeight 0 = Some 0"
  by (simp add: GetHeight_def)

lemma Build_Nil: "Build H [] = Some (Inr \<lparr>count = 0, root = None, rootHash = rootHash_of H 0 []\<rparr>)"
  by (simp add: Build_def GetHeight_0)

lemma Build_nonempty:
  assumes "L \<noteq> []" "length L < 2 ^ 63"
  shows "\<exists>k nd. k \<le> 63 \<and> GetHeight (of_nat (length L)) = Some (Suc k) \<and> shape H (Suc k) L nd
           \<and> Build H L = Some (Inr \<lparr>count = of_nat (length L), root = Some nd,
                  rootHash = rootHash_of H (of_nat (length L)) (label nd)\<rparr>)"
proof -
  have pos: "0 < length L" using assms(1) by simp
  have le: "length L \<le> 2 ^ 63" using assms(2) by simp
  from ex_height [OF pos le] obtain k where
    k: "k \<le> 63" "length L \<le> 2 ^ k" "\<forall>j<k. (2::nat) ^ j < length L" by blast
  have gh: "GetHeight (of_nat (length L)) = Some (Suc k)"
    by (rule GetHeight_Some [OF pos k(2,3,1)])
  from buildNode_shape [OF assms(1), of H k] obtain nd where
    nd: "buildNode H L (Suc k) = (Some nd, drop (2 ^ k) L)" "shape H (Suc k) (take (2 ^ k) L) nd"
    by blast
  have sh: "shape H (Suc k) L nd" using nd(2) k(2) by simp
  have "Build H L = Some (Inr \<lparr>count = of_nat (length L), root = Some nd,
                  rootHash = rootHash_of H (of_nat (length L)) (label nd)\<rparr>)"
    using gh nd(1) k(2) by (simp add: Build_def Let_def)
  then show ?thesis using k(1) gh sh by blast
qed

lemma Validate_Build:
  assumes "length L < 2 ^ 63"
  shows "\<exists>t. Build H L = Some (Inr t) \<and> Validate H t = Some (Inr None)
             \<and> count t = of_nat (length L)"
proof (cases "L = []")
  case True
  then show ?thesis by (simp add: Build_Nil Validate_def GetHeight_0)
next
  case False
  from Build_nonempty [OF False assms, of H] obtain k nd where
    b: "k \<le> 63" "GetHeight (of_nat (length L)) = Some (Suc k)" "shape H (Suc k) L nd"
       "Build H L = Some (Inr \<lparr>count = of_nat (length L), root = Some nd,
                  rootHash = rootHash_of H (of_nat (length L)) (label nd)\<rparr>)" by blast
  have "Validate H \<lparr>count = of_nat (length L), root = Some nd,
                  rootHash = rootHash_of H (of_nat (length L)) (label nd)\<rparr> = Some (Inr None)"
    using validate_shape [OF b(3)] b(2) by (simp add: Validate_def)
  then show ?thesis using b(4) by simp
qed

lemma CheckProof_Build:
  assumes "length L < 2 ^ 63" "i < length L" "Build H L = Some (Inr t)"
  shows "\<exists>p. InclusionProof t (of_nat i) = Some (Inr p) \<and> p \<noteq> [] \<and> hd p = L ! i
           \<and> CheckProof H \<lparr>Count = of_nat (length L), Base = rootHash t\<rparr> p (of_nat i) = Some True"
proof -
  have ne: "L \<noteq> []" using assms(2) by auto
  from Build_nonempty [OF ne assms(1), of H] assms(3) obtain k nd where
    b: "k \<le> 63" "GetHeight (of_nat (length L)) = Some (Suc k)" "shape H (Suc k) L nd"
       "t = \<lparr>count = of_nat (length L), root = Some nd,
                  rootHash = rootHash_of H (of_nat (length L)) (label nd)\<rparr>" by auto
  have l64: "length L < 2 ^ 64" using assms(1) by simp
  have i64: "i < 2 ^ 64" and i63: "i < 2 ^ 63" using assms(1,2) by simp_all
  have ul: "unat (of_nat (length L) :: 64 word) = length L" by (rule unat_of_nat64 [OF l64])
  have ui: "unat (of_nat i :: 64 word) = i" by (rule unat_of_nat64 [OF i64])
  have okc': "okc (Suc k) (length L) (of_nat (length L))" using ul by (simp add: okc_def)
  have h64: "Suc k \<le> 64" using b(1) by simp
  from prove_check [OF b(3) h64 assms(2) okc'] obtain p where
    p: "proveNode (Suc k) (Some nd) (of_nat i) = Inr p" "p \<noteq> []" "hd p = L ! i"
       "checkNode H (Suc k) p (of_nat i) (of_nat (length L)) = (label nd, True)" by blast
  have lt: "\<not> (of_nat (length L) :: 64 word) \<le> of_nat i"
    using ul ui assms(2) by (simp add: word_le_nat_alt)
  have "\<not> bit (of_nat i :: 64 word) 63"
    using i63 by (auto simp: bit_simps dest: bit_nat_small [of i 62, simplified])
  then have nn: "\<not> sint (of_nat i :: 64 word) < 0"
    using bit_last_iff [of "of_nat i :: 64 word"] by simp
  have "InclusionProof t (of_nat i) = Some (Inr p)"
    using b(2,4) lt nn p(1) by (simp add: InclusionProof_def)
  moreover have "CheckProof H \<lparr>Count = of_nat (length L), Base = rootHash t\<rparr> p (of_nat i) = Some True"
    using b(2,4) p(4) by (simp add: CheckProof_def)
  ultimately show ?thesis using p(2,3) by blast
qed

text \<open>
  Claim C2.  For every list \<open>L\<close> of leaves (a Go slice, so shorter than \<open>2 ^ 63\<close>), \<open>Build\<close>
  returns a tree \<open>t\<close> that \<open>Validate\<close> accepts with the \<open>nil\<close> error, and for every index
  \<open>i\<close> below \<open>len(L)\<close> the proof \<open>InclusionProof(t, i)\<close> is accepted by \<open>CheckProof\<close> on the
  root \<open>{Count: len(L), Base: t.Root()}\<close>; nothing panics and every call returns.
\<close>

theorem Build_Validate_CheckProof:
  assumes "length L < 2 ^ 63"
  shows "\<exists>t. Build H L = Some (Inr t) \<and> Validate H t = Some (Inr None)
           \<and> (\<forall>i<length L. \<exists>p. InclusionProof t (of_nat i) = Some (Inr p)
                 \<and> CheckProof H \<lparr>Count = of_nat (length L), Base = rootHash t\<rparr> p (of_nat i)
                     = Some True)"
proof -
  from Validate_Build [OF assms, of H] obtain t where
    t: "Build H L = Some (Inr t)" "Validate H t = Some (Inr None)" by blast
  have "\<exists>p. InclusionProof t (of_nat i) = Some (Inr p)
           \<and> CheckProof H \<lparr>Count = of_nat (length L), Base = rootHash t\<rparr> p (of_nat i) = Some True"
    if "i < length L" for i
    using CheckProof_Build [OF assms that t(1)] by blast
  then show ?thesis using t by blast
qed

theorem Build_Validate_CheckProof_witness:
  "length [[97], [98], [99 :: 8 word]] < 2 ^ 63 \<and>
   (\<exists>t. Build (\<lambda>x. x) [[97], [98], [99]] = Some (Inr t)
      \<and> Validate (\<lambda>x. x) t = Some (Inr None)
      \<and> (\<forall>i<length [[97], [98], [99 :: 8 word]].
            \<exists>p. InclusionProof t (of_nat i) = Some (Inr p)
              \<and> CheckProof (\<lambda>x. x)
                    \<lparr>Count = of_nat (length [[97], [98], [99 :: 8 word]]), Base = rootHash t\<rparr>
                    p (of_nat i) = Some True))"
proof -
  have h: "length [[97], [98], [99 :: 8 word]] < 2 ^ 63" by simp
  from h Build_Validate_CheckProof [OF h, of "\<lambda>x. x"] show ?thesis by (rule conjI)
qed

lemma GetHeight_total:
  assumes "(c :: 64 word) \<le> 2 ^ 63"
  shows "\<exists>h. GetHeight c = Some h"
proof (cases "c = 0")
  case True
  then show ?thesis by (simp add: GetHeight_def)
next
  case False
  then have pos: "0 < unat c" by (simp add: unat_gt_0)
  have le: "unat c \<le> 2 ^ 63" using assms unat_pow2 [of 63] by (simp add: word_le_nat_alt)
  from ex_height [OF pos le] obtain k where
    k: "k \<le> 63" "unat c \<le> 2 ^ k" "\<forall>j<k. (2::nat) ^ j < unat c" by blast
  have "GetHeight (of_nat (unat c)) = Some (Suc k)" by (rule GetHeight_Some [OF pos k(2,3,1)])
  then show ?thesis by simp
qed

lemma CheckProof_rejects:
  assumes "Count r \<le> 2 ^ 63" "p = [] \<or> int (unat (Count r)) \<le> sint i"
  shows "CheckProof H r p i = Some False"
proof -
  from GetHeight_total [OF assms(1)] obtain h where h: "GetHeight (Count r) = Some h" by blast
  have guard: "p = [] \<or> Count r \<le> i"
  proof (cases "p = []")
    case True
    then show ?thesis by simp
  next
    case False
    then have le: "int (unat (Count r)) \<le> sint i" using assms(2) by simp
    then have "0 \<le> sint i" by linarith
    then have "\<not> bit i 63" using bit_last_iff [of i] by simp
    then have nb: "\<not> bit (uint i) 63" by (simp add: bit_uint_iff)
    have small: "n < 63" if "bit i n" for n
    proof -
      have "n < 64" using bit_imp_le_length [OF that] by simp
      moreover have "n \<noteq> 63" using that \<open>\<not> bit i 63\<close> by auto
      ultimately show ?thesis by simp
    qed
    have "take_bit 63 (uint i) = uint i"
      by (rule bit_eqI) (auto simp: bit_simps dest: small)
    moreover have "sint i = signed_take_bit 63 (uint i)" by (simp only: sint_uint) simp
    moreover have "signed_take_bit 63 (uint i) = take_bit 63 (uint i)"
      by (rule signed_take_bit_eq_if_positive [OF nb])
    ultimately have "sint i = uint i" by (simp only:)
    then have "int (unat (Count r)) \<le> int (unat i)" using le by (simp only: uint_nat)
    then have "unat (Count r) \<le> unat i" by (simp only: of_nat_le_iff)
    then show ?thesis by (simp add: word_le_nat_alt)
  qed
  have "snd (checkNode H h p i (Count r)) = False"
  proof (cases h)
    case 0
    then show ?thesis using guard by auto
  next
    case (Suc j)
    then show ?thesis using guard by (cases j) auto
  qed
  then show ?thesis using h by (cases "checkNode H h p i (Count r)") (simp add: CheckProof_def)
qed

lemma CheckProof_diverges: "2 ^ 63 < Count r \<Longrightarrow> CheckProof H r p i = None"
proof -
  assume a: "2 ^ 63 < Count r"
  then have "Count r \<noteq> 0" by auto
  then show ?thesis using GetHeight_loop_diverges [OF a, of 0]
    by (simp add: CheckProof_def GetHeight_def)
qed

text \<open>
  Claim C9.  \<open>CheckProof\<close> is to return \<open>false\<close> for an empty proof and for an index not
  below \<open>r.Count\<close>.  It does so for every count up to \<open>2 ^ 63\<close> (\<open>CheckProof_rejects\<close>), but
  for a larger count the call \<open>GetHeight(r.Count)\<close> that comes first never returns
  (\<open>CheckProof_diverges\<close>): here for the count \<open>2 ^ 63 + 1\<close>, the empty proof and index \<open>0\<close>.
\<close>

theorem CheckProof_hangs:
  "CheckProof H \<lparr>Count = 2 ^ 63 + 1, Base = b\<rparr> [] 0 = None"
  by (rule CheckProof_diverges) simp

lemma splitData_eq:
  assumes "0 < sz"
  shows "splitData data sz =
           map (\<lambda>i. take sz (drop (i * sz) data)) [0..<length data div sz]
           @ (if length data mod sz = 0 then [] else [drop (length data div sz * sz) data])"
  using assms by (simp add: splitData_def Let_def)

lemma length_splitData:
  "0 < sz \<Longrightarrow> length (splitData data sz) = length data div sz + (if length data mod sz = 0 then 0 else 1)"
  by (simp add: splitData_eq)

lemma concat_blocks:
  "n * sz \<le> length data \<Longrightarrow>
     concat (map (\<lambda>i. take sz (drop (i * sz) data)) [0..<n]) = take (n * sz) data"
proof (induction n)
  case 0
  then show ?case by simp
next
  case (Suc n)
  then have "concat (map (\<lambda>i. take sz (drop (i * sz) data)) [0..<n]) = take (n * sz) data" by simp
  then have "concat (map (\<lambda>i. take sz (drop (i * sz) data)) [0..<Suc n])
               = take (n * sz) data @ take sz (drop (n * sz) data)" by simp
  also have "\<dots> = take (n * sz + sz) data" by (rule take_add [symmetric])
  also have "n * sz + sz = Suc n * sz" by simp
  finally show ?case .
qed

lemma concat_splitData: "0 < sz \<Longrightarrow> concat (splitData data sz) = data"
proof -
  assume sz: "0 < sz"
  have le: "length data div sz * sz \<le> length data" by simp
  show ?thesis
  proof (cases "length data mod sz = 0")
    case True
    then have "length data div sz * sz = length data" by auto
    then show ?thesis using concat_blocks [OF le] True sz by (simp add: splitData_eq)
  next
    case False
    then show ?thesis using concat_blocks [OF le] sz by (simp add: splitData_eq)
  qed
qed

lemma BuildBMT_leaves_parts:
  assumes "0 < segmentsize" "length data < 2 ^ 63"
  shows "splitData data segmentsize =
           map (\<lambda>i. take segmentsize (drop (i * segmentsize) data)) [0..<length data div segmentsize]
           @ (if length data mod segmentsize = 0 then []
              else [drop (length data div segmentsize * segmentsize) data])"
    and "\<forall>i < length data div segmentsize. length (splitData data segmentsize ! i) = segmentsize"
    and "length data mod segmentsize \<noteq> 0 \<longrightarrow>
           length (last (splitData data segmentsize)) = length data mod segmentsize"
    and "concat (splitData data segmentsize) = data"
    and "\<exists>tree. Build H (splitData data segmentsize) = Some (Inr tree)
           \<and> BuildBMT H data segmentsize =
               Some (Inr (Some tree,
                          Some \<lparr>Count = of_nat (length (splitData data segmentsize)), Base = rootHash tree\<rparr>,
                          length (splitData data segmentsize), 0))
           \<and> unat (count tree) = length (splitData data segmentsize)
           \<and> length (splitData data segmentsize)
               = length data div segmentsize + (if length data mod segmentsize = 0 then 0 else 1)"
proof -
  let ?n = "length data div segmentsize"
  show eq: "splitData data segmentsize =
           map (\<lambda>i. take segmentsize (drop (i * segmentsize) data)) [0..<?n]
           @ (if length data mod segmentsize = 0 then []
              else [drop (?n * segmentsize) data])"
    by (rule splitData_eq [OF assms(1)])
  show "\<forall>i < ?n. length (splitData data segmentsize ! i) = segmentsize"
  proof (intro allI impI)
    fix i assume i: "i < ?n"
    then have "Suc i * segmentsize \<le> ?n * segmentsize" by (intro mult_le_mono1) simp
    also have "\<dots> \<le> length data" by simp
    finally have "segmentsize \<le> length data - i * segmentsize" by simp
    then show "length (splitData data segmentsize ! i) = segmentsize"
      using i by (simp add: eq nth_append)
  qed
  show "length data mod segmentsize \<noteq> 0 \<longrightarrow>
           length (last (splitData data segmentsize)) = length data mod segmentsize"
    by (simp add: eq minus_div_mult_eq_mod)
  show "concat (splitData data segmentsize) = data" by (rule concat_splitData [OF assms(1)])
  have len: "length (splitData data segmentsize) = ?n + (if length data mod segmentsize = 0 then 0 else 1)"
    by (rule length_splitData [OF assms(1)])
  have "length (splitData data segmentsize) \<le> length data"
  proof (cases "length data mod segmentsize = 0")
    case True
    then show ?thesis using len assms(1) by (simp add: div_le_dividend)
  next
    case False
    have "?n * 1 \<le> ?n * segmentsize" using assms(1) by (intro mult_le_mono2) simp
    then have "?n \<le> ?n * segmentsize" by (simp only: mult_1_right)
    moreover have "?n * segmentsize + length data mod segmentsize = length data" by simp
    moreover have "length (splitData data segmentsize) = ?n + 1" using len False by simp
    moreover have "0 < length data mod segmentsize" using False by simp
    ultimately show ?thesis by linarith
  qed
  then have small: "length (splitData data segmentsize) < 2 ^ 63" using assms(2) by simp
  from Validate_Build [OF small, of H] obtain tree where
    t: "Build H (splitData data segmentsize) = Some (Inr tree)" "Validate H tree = Some (Inr None)"
       "count tree = of_nat (length (splitData data segmentsize))" by blast
  have "length (splitData data segmentsize) < 2 ^ 64" using small by simp
  then have u: "unat (count tree) = length (splitData data segmentsize)"
    using t(3) by (simp add: unat_of_nat64)
  have "BuildBMT H data segmentsize =
               Some (Inr (Some tree,
                          Some \<lparr>Count = of_nat (length (splitData data segmentsize)), Base = rootHash tree\<rparr>,
                          length (splitData data segmentsize), 0))"
    using t by (simp add: BuildBMT_def Let_def)
  then show "\<exists>tree. Build H (splitData data segmentsize) = Some (Inr tree)
           \<and> BuildBMT H data segmentsize =
               Some (Inr (Some tree,
                          Some \<lparr>Count = of_nat (length (splitData data segmentsize)), Base = rootHash tree\<rparr>,
                          length (splitData data segmentsize), 0))
           \<and> unat (count tree) = length (splitData data segmentsize)
           \<and> length (splitData data segmentsize)
               = ?n + (if length data mod segmentsize = 0 then 0 else 1)"
    using t(1) u len by blast
qed

text \<open>
  Claim C10.  For a positive \<open>segmentsize\<close>, \<open>BuildBMT\<close> splits \<open>data\<close> into
  \<open>len(data) / segmentsize\<close> leaves of exactly \<open>segmentsize\<close> bytes, followed, exactly when
  \<open>len(data)\<close> is not a multiple of \<open>segmentsize\<close>, by one shorter leaf with the remaining
  bytes; the leaves concatenated are \<open>data\<close> (nothing is padded); the call returns with
  error code \<open>0\<close>, and the returned count is the number of leaves and the tree's count.
\<close>

theorem BuildBMT_leaves:
  assumes "0 < segmentsize" "length data < 2 ^ 63"
  shows "splitData data segmentsize =
           map (\<lambda>i. take segmentsize (drop (i * segmentsize) data)) [0..<length data div segmentsize]
           @ (if length data mod segmentsize = 0 then []
              else [drop (length data div segmentsize * segmentsize) data])
    \<and> (\<forall>i < length data div segmentsize. length (splitData data segmentsize ! i) = segmentsize)
    \<and> (length data mod segmentsize \<noteq> 0 \<longrightarrow>
           length (last (splitData data segmentsize)) = length data mod segmentsize)
    \<and> concat (splitData data segmentsize) = data
    \<and> (\<exists>tree. Build H (splitData data segmentsize) = Some (Inr tree)
           \<and> BuildBMT H data segmentsize =
               Some (Inr (Some tree,
                          Some \<lparr>Count = of_nat (length (splitData data segmentsize)), Base = rootHash tree\<rparr>,
                          length (splitData data segmentsize), 0))
           \<and> unat (count tree) = length (splitData data segmentsize)
           \<and> length (splitData data segmentsize)
               = length data div segmentsize + (if length data mod segmentsize = 0 then 0 else 1))"
  by (intro conjI) (rule BuildBMT_leaves_parts [OF assms])+

theorem BuildBMT_leaves_witness:
  "0 < (2 :: nat) \<and> length [1, 2, 3, 4, 5 :: 8 word] < 2 ^ 63
   \<and> splitData [1, 2, 3, 4, 5 :: 8 word] 2 = [[1, 2], [3, 4], [5]]
   \<and> (\<exists>tree. BuildBMT (\<lambda>x. x) [1, 2, 3, 4, 5 :: 8 word] 2 =
               Some (Inr (Some tree, Some \<lparr>Count = 3, Base = rootHash tree\<rparr>, 3, 0))
           \<and> unat (count tree) = 3)"
proof -
  have a: "0 < (2 :: nat)" by simp
  have b: "length [1, 2, 3, 4, 5 :: 8 word] < 2 ^ 63" by simp
  have s: "splitData [1, 2, 3, 4, 5 :: 8 word] 2 = [[1, 2], [3, 4], [5]]"
    by (simp add: splitData_def upt_rec)
  from BuildBMT_leaves [OF a b, of "\<lambda>x. x"] have
    "\<exists>tree. BuildBMT (\<lambda>x. x) [1, 2, 3, 4, 5 :: 8 word] 2 =
               Some (Inr (Some tree, Some \<lparr>Count = 3, Base = rootHash tree\<rparr>, 3, 0))
           \<and> unat (count tree) = 3"
    unfolding s by auto
  with a b s show ?thesis by blast
qed

end
